theory Spec2Isabelle
  imports
    Complex_Main
    "HOL-Library.Char_ord"
    "HOL-Library.List_Lexorder"
    "HOL-Library.Product_Lexorder"
    "HOL-Library.Option_ord"
begin

section \<open>Data model\<close>

text \<open>
  The \<open>Event\<close> dataclass of \<open>backend/modules/utils.py\<close>. Python does not enforce the field
  types, and \<open>add_event\<close> tests the id against \<open>None\<close>, so the id is optional here
  (\<open>None\<close> is a missing id). The timestamp is the ISO-8601 string the code stores; the
  empty string stands for both falsy values (\<open>None\<close> and \<open>""\<close>), which every read of the
  code treats alike. The event dictionaries built by \<open>serialize_event\<close> and
  \<open>get_posture\<close> copy these fields one by one and are modelled by the same record.
\<close>

record event =
  ev_id :: "int option"
  timestamp :: string
  source_ip :: string
  dest_port :: int
  phase :: string
  category :: string
  severity :: string
  chain_id :: "string option"
  stage :: "string option"
  raw :: string
  parsed :: "(string \<times> string) list"

text \<open>
  Clock readings are seconds as real numbers (the floats of \<open>time.time()\<close> and the
  microsecond datetimes, without their rounding). \<open>datetime.fromisoformat\<close> belongs to the
  Python library, not to the repository: it is a parameter \<open>parse\<close> of every function
  that reads a timestamp, \<open>None\<close> being the \<open>ValueError\<close>.
\<close>

type_synonym clock = real
type_synonym iso_parser = "string \<Rightarrow> clock option"

section \<open>Event store (\<open>backend/modules/state.py\<close>)\<close>

text \<open>
  The module globals \<open>_events\<close> (a \<open>deque(maxlen=_MAX_EVENTS)\<close>, oldest first) and
  \<open>_event_counter\<close>.
\<close>

record store =
  events :: "event list"
  event_counter :: int

definition MAX_EVENTS :: nat where
  "MAX_EVENTS = 500"

definition empty_store :: store where
  "empty_store = \<lparr>events = [], event_counter = 0\<rparr>"

text \<open>\<open>deque.append\<close> on a bounded deque: a full deque drops its leftmost item first.\<close>

definition deque_append :: "nat \<Rightarrow> 'a list \<Rightarrow> 'a \<Rightarrow> 'a list" where
  "deque_append maxlen xs x =
     (if maxlen = 0 then []
      else if length xs \<ge> maxlen then tl xs @ [x]
      else xs @ [x])"

definition next_event_id :: "store \<Rightarrow> int \<times> store" where
  "next_event_id st =
     (let c = event_counter st + 1 in (c, st\<lparr>event_counter := c\<rparr>))"

definition ensure_timestamp :: "string \<Rightarrow> event \<Rightarrow> event" where
  "ensure_timestamp now_iso e = (if timestamp e = [] then e\<lparr>timestamp := now_iso\<rparr> else e)"

text \<open>
  \<open>add_event\<close> mutates the event and the globals; here it returns the stored event and the
  new store. \<open>now_iso\<close> is \<open>datetime.utcnow().isoformat()\<close> at the call.
\<close>

definition add_event :: "string \<Rightarrow> event \<Rightarrow> store \<Rightarrow> event \<times> store" where
  "add_event now_iso e st =
     (let (e1, st1) =
            (if ev_id e = None \<or> ev_id e = Some 0
             then (let (n, s) = next_event_id st in (e\<lparr>ev_id := Some n\<rparr>, s))
             else (e, st));
          e2 = ensure_timestamp now_iso e1
      in (e2, st1\<lparr>events := deque_append MAX_EVENTS (events st1) e2\<rparr>))"

text \<open>
  A run of \<open>add_event\<close> calls, each with its own clock reading, collecting the returned
  events in call order.
\<close>

fun add_events :: "(string \<times> event) list \<Rightarrow> store \<Rightarrow> event list \<times> store" where
  "add_events [] st = ([], st)"
| "add_events ((t, e) # rest) st =
     (let (e', st') = add_event t e st;
          (es, st'') = add_events rest st'
      in (e' # es, st''))"

definition needs_id :: "event \<Rightarrow> bool" where
  "needs_id e = (ev_id e = None \<or> ev_id e = Some 0)"

definition get_event_by_id :: "store \<Rightarrow> int \<Rightarrow> event option" where
  "get_event_by_id st event_id = find (\<lambda>e. ev_id e = Some event_id) (rev (events st))"

text \<open>
  \<open>get_dashboard_counts\<close>: the dictionary of counts is a map with the four known keys; the
  loop bumps a key only if it is already there.
\<close>

definition zero_counts :: "string \<rightharpoonup> nat" where
  "zero_counts =
     [''benign'' \<mapsto> 0, ''suspicious'' \<mapsto> 0, ''malicious'' \<mapsto> 0, ''critical'' \<mapsto> 0]"

definition count_severity :: "(string \<rightharpoonup> nat) \<Rightarrow> event \<Rightarrow> (string \<rightharpoonup> nat)" where
  "count_severity counts e =
     (case counts (severity e) of
        Some n \<Rightarrow> counts(severity e \<mapsto> n + 1)
      | None \<Rightarrow> counts)"

record dashboard_counts =
  total :: nat
  by_severity :: "string \<rightharpoonup> nat"

definition get_dashboard_counts :: "store \<Rightarrow> dashboard_counts" where
  "get_dashboard_counts st =
     \<lparr>total = length (events st),
      by_severity = foldl count_severity zero_counts (events st)\<rparr>"

definition known_severities :: "string list" where
  "known_severities = [''benign'', ''suspicious'', ''malicious'', ''critical'']"

definition severity_sum :: "(string \<rightharpoonup> nat) \<Rightarrow> nat" where
  "severity_sum counts = (\<Sum>k\<leftarrow>known_severities. the (counts k))"

section \<open>Classifier (\<open>backend/modules/classifier.py\<close>)\<close>

text \<open>
  \<open>_parse_ts\<close> falls back to the current time when the timestamp does not parse, so the
  age of such an event is the time between two successive clock readings, taken as 0.
  \<open>now\<close> is the reading of \<open>datetime.utcnow()\<close> in \<open>_seconds_ago\<close>.
\<close>

definition seconds_ago :: "iso_parser \<Rightarrow> clock \<Rightarrow> string \<Rightarrow> real" where
  "seconds_ago parse now ts = (case parse ts of Some dt \<Rightarrow> now - dt | None \<Rightarrow> 0)"

text \<open>The factor texts contain the arrow U+2192, three bytes in UTF-8.\<close>

definition arrow :: string where
  "arrow = [CHR 0xE2, CHR 0x86, CHR 0x92]"

record classification =
  risk :: string
  confidence :: real
  factors :: "string list"

definition classify_event :: "iso_parser \<Rightarrow> clock \<Rightarrow> event \<Rightarrow> classification" where
  "classify_event parse now e =
     (let age = seconds_ago parse now (timestamp e);
          conf = 0.3
      in if stage e = Some ''noise''
         then \<lparr>risk = ''low'', confidence = 0.2,
               factors = [''noise category '' @ arrow @ '' low risk'']\<rparr>
         else
           let (conf, fs, r) =
                 (if stage e = Some ''recon''
                  then (conf + 0.1, [''recon activity detected''], ''medium'')
                  else if stage e = Some ''intrusion''
                  then (conf + 0.25, [''intrusion indicators present''], ''high'')
                  else if stage e = Some ''exploit''
                  then (conf + 0.45, [''exploit behavior detected''], ''critical'')
                  else (conf, [''unknown stage '' @ arrow @ '' assume medium risk''], ''medium''));
               (conf, fs) =
                 (if severity e = ''malicious''
                  then (conf + 0.15, fs @ [''severity=malicious '' @ arrow @ '' increased risk''])
                  else if severity e = ''critical''
                  then (conf + 0.3, fs @ [''severity=critical '' @ arrow @ '' high concern''])
                  else (conf, fs));
               (conf, fs) =
                 (if age < 60
                  then (conf + 0.1, fs @ [''recent activity (<60s)''])
                  else (conf, fs));
               conf = max 0 (min conf 1)
           in \<lparr>risk = r, confidence = conf, factors = fs\<rparr>)"

text \<open>
  \<open>collections.Counter\<close> as an association list in first-insertion order, as the
  dictionary underneath it keeps its keys.
\<close>

fun counter_incr :: "'a \<Rightarrow> ('a \<times> nat) list \<Rightarrow> ('a \<times> nat) list" where
  "counter_incr k [] = [(k, 1)]"
| "counter_incr k ((k', n) # rest) =
     (if k = k' then (k', n + 1) # rest else (k', n) # counter_incr k rest)"

definition Counter :: "'a list \<Rightarrow> ('a \<times> nat) list" where
  "Counter xs = foldl (\<lambda>c k. counter_incr k c) [] xs"

text \<open>
  \<open>most_common(1)[0]\<close>: the first entry with the largest count. It is only applied to the
  counter of a non-empty list, which is non-empty (lemma \<open>Counter_not_Nil\<close> below).
\<close>

definition most_common_1 :: "('a \<times> nat) list \<Rightarrow> 'a \<times> nat" where
  "most_common_1 c = foldl (\<lambda>best kv. if snd kv > snd best then kv else best) (hd c) (tl c)"

text \<open>\<open>list(dict.fromkeys(xs))\<close>: duplicates removed, first occurrences kept in order.\<close>

definition fromkeys :: "'a list \<Rightarrow> 'a list" where
  "fromkeys xs = rev (remdups (rev xs))"

text \<open>Decimal digits of a natural number, for the count inside the f-string.\<close>

fun str_nat :: "nat \<Rightarrow> string" where
  "str_nat n =
     (if n < 10 then [char_of (48 + n)]
      else str_nat (n div 10) @ [char_of (48 + n mod 10)])"

declare str_nat.simps [simp del]

record chain_summary = classification +
  stages :: "string option list"
  ip :: "string option"
  summary_chain_id :: "string option"

definition classify_chain :: "event list \<Rightarrow> chain_summary" where
  "classify_chain chain_events =
     (if chain_events = []
      then \<lparr>risk = ''low'', confidence = 0, factors = [''empty chain''],
            stages = [], ip = None, summary_chain_id = None\<rparr>
      else
        let stgs = map stage chain_events;
            sev = map severity chain_events;
            ips = map source_ip chain_events;
            distinct_stages = fromkeys stgs;
            conf = 0.4;
            (fs, r, conf) =
              (if set distinct_stages = {Some ''recon''}
               then ([''recon-only chain '' @ arrow @ '' medium risk''], ''medium'', conf)
               else if Some ''exploit'' \<in> set stgs
               then ([''exploit stage present '' @ arrow @ '' critical risk''], ''critical'',
                     conf + 0.35)
               else if Some ''intrusion'' \<in> set stgs
               then ([''intrusion indicators '' @ arrow @ '' high risk''], ''high'', conf + 0.20)
               else if Some ''recon'' \<in> set stgs
               then ([''recon sequence '' @ arrow @ '' medium risk''], ''medium'', conf + 0.10)
               else ([''default chain rule '' @ arrow @ '' low risk''], ''low'', conf));
            (conf, fs) =
              (if ''critical'' \<in> set sev
               then (conf + 0.25, fs @ [''critical severity event in chain''])
               else if ''malicious'' \<in> set sev
               then (conf + 0.15, fs @ [''malicious severity in chain''])
               else (conf, fs));
            (dominant_ip, count) = most_common_1 (Counter ips);
            (conf, fs) =
              (if count > 1
               then (conf + 0.1,
                     fs @ [str_nat count @ '' repeated actions from IP '' @ dominant_ip])
               else (conf, fs));
            conf = max 0 (min conf 1)
        in \<lparr>risk = r, confidence = conf, factors = fs,
            stages = distinct_stages, ip = Some dominant_ip, summary_chain_id = None\<rparr>)"

section \<open>Posture engine (\<open>backend/modules/posture.py\<close>)\<close>

datatype posture_level = MONITOR | ELEVATED | RESTRICT | LOCKDOWN

text \<open>
  The two loops of \<open>determine_posture\<close> with their early returns, then the \<open>all\<close>. The
  posture module has its own copy of \<open>_seconds_ago\<close>, the same as the classifier's.
\<close>

definition determine_posture ::
  "iso_parser \<Rightarrow> clock \<Rightarrow> event list \<Rightarrow> chain_summary list \<Rightarrow> posture_level" where
  "determine_posture parse now recent_events chain_summaries =
     (if list_ex (\<lambda>summary. risk summary = ''critical'') chain_summaries then LOCKDOWN
      else
        let malicious_ips =
              map source_ip
                (filter (\<lambda>evt. severity evt = ''malicious'' \<and>
                                seconds_ago parse now (timestamp evt) \<le> 30) recent_events)
        in if malicious_ips \<noteq> [] \<and> list_ex (\<lambda>v. v \<ge> 2) (map snd (Counter malicious_ips))
           then RESTRICT
           else if list_all (\<lambda>evt. severity evt = ''benign'') recent_events then MONITOR
           else ELEVATED)"

text \<open>
  \<open>determine_posture\<close> above has one clock reading for the whole call. The code reads
  the clock anew in every \<open>_seconds_ago\<close>, that is once for each malicious event it
  examines. \<open>determine_posture_at\<close> is the same function with these readings explicit:
  \<open>readings i\<close> is the reading taken while the event at position \<open>i\<close> of
  \<open>recent_events\<close> is examined. With a clock that stands still (\<open>frozen now\<close>) it is
  \<open>determine_posture\<close> (lemma \<open>determine_posture_frozen\<close> below).
\<close>

definition frozen :: "clock \<Rightarrow> nat \<Rightarrow> clock" where
  "frozen now i = now"

definition determine_posture_at ::
  "iso_parser \<Rightarrow> (nat \<Rightarrow> clock) \<Rightarrow> event list \<Rightarrow> chain_summary list \<Rightarrow> posture_level" where
  "determine_posture_at parse readings recent_events chain_summaries =
     (if list_ex (\<lambda>summary. risk summary = ''critical'') chain_summaries then LOCKDOWN
      else
        let malicious_ips =
              map (\<lambda>(i, evt). source_ip evt)
                (filter (\<lambda>(i, evt). severity evt = ''malicious'' \<and>
                                   seconds_ago parse (readings i) (timestamp evt) \<le> 30)
                        (enumerate 0 recent_events))
        in if malicious_ips \<noteq> [] \<and> list_ex (\<lambda>v. v \<ge> 2) (map snd (Counter malicious_ips))
           then RESTRICT
           else if list_all (\<lambda>evt. severity evt = ''benign'') recent_events then MONITOR
           else ELEVATED)"

section \<open>Windows, posture and dashboard (\<open>state.py\<close>, \<open>main.py\<close>)\<close>

text \<open>
  \<open>sorted(xs, key=..., reverse=True)\<close>: descending by key, and Python keeps the original
  order among equal keys also when reversing. The key is the pair (timestamp string, id):
  strings compare lexicographically by character code, pairs lexicographically. Ids in
  the buffer are never \<open>None\<close> (\<open>add_event\<close> replaces a missing one), so the order on
  \<open>None\<close> is never consulted.
\<close>

definition sorted_reverse :: "('a \<Rightarrow> 'k::linorder) \<Rightarrow> 'a list \<Rightarrow> 'a list" where
  "sorted_reverse key xs = rev (sort_key key (rev xs))"

text \<open>
  The test of the loop in \<open>get_events_in_window\<close>: a falsy timestamp and one that does not
  parse are skipped, the others are kept when not older than the cutoff.
\<close>

definition in_window :: "iso_parser \<Rightarrow> clock \<Rightarrow> real \<Rightarrow> event \<Rightarrow> bool" where
  "in_window parse now seconds e =
     (let cutoff = now - seconds
      in if timestamp e = [] then False
         else case parse (timestamp e) of None \<Rightarrow> False | Some ts \<Rightarrow> ts \<ge> cutoff)"

definition get_events_in_window :: "iso_parser \<Rightarrow> clock \<Rightarrow> real \<Rightarrow> store \<Rightarrow> event list" where
  "get_events_in_window parse now seconds st =
     sorted_reverse (\<lambda>e. (timestamp e, ev_id e))
       (filter (in_window parse now seconds) (events st))"

text \<open>\<open>chains.setdefault(cid, []).append(ev)\<close> on a dictionary in insertion order.\<close>

fun setdefault_append ::
  "string \<Rightarrow> event \<Rightarrow> (string \<times> event list) list \<Rightarrow> (string \<times> event list) list" where
  "setdefault_append cid ev [] = [(cid, [ev])]"
| "setdefault_append cid ev ((k, evts) # rest) =
     (if k = cid then (k, evts @ [ev]) # rest
      else (k, evts) # setdefault_append cid ev rest)"

text \<open>
  \<open>get_posture\<close> with its default window of 15 seconds. It reads the clock once for the
  cutoff of the window (\<open>now\<close>) and then, inside \<open>determine_posture\<close>, once for each
  malicious event of the window (\<open>readings\<close>).
\<close>

definition get_posture :: "iso_parser \<Rightarrow> clock \<Rightarrow> (nat \<Rightarrow> clock) \<Rightarrow> store \<Rightarrow> posture_level" where
  "get_posture parse now readings st =
     (let recent = get_events_in_window parse now 15 st;
          recent_dicts = recent;
          chains = foldl (\<lambda>ch ev. case chain_id ev of
                                     None \<Rightarrow> ch
                                   | Some cid \<Rightarrow> if cid = [] then ch
                                                else setdefault_append cid ev ch)
                         [] recent_dicts;
          chain_summaries =
            map (\<lambda>(cid, evts). (classify_chain evts)\<lparr>summary_chain_id := Some cid\<rparr>) chains
      in determine_posture_at parse readings recent_dicts chain_summaries)"

text \<open>\<open>get_deltas\<close> reads the clock once, for the cutoff of its own window.\<close>

definition get_deltas :: "iso_parser \<Rightarrow> clock \<Rightarrow> store \<Rightarrow> (string \<rightharpoonup> nat)" where
  "get_deltas parse now st =
     foldl count_severity zero_counts (get_events_in_window parse now 15 st)"

record dashboard_response =
  posture :: posture_level
  counts :: "string \<rightharpoonup> nat"
  total_events :: nat
  delta :: "string \<rightharpoonup> nat"

text \<open>
  \<open>dashboard()\<close> reads the store and the clock and writes nothing. One call takes the
  clock readings of \<open>get_posture\<close> (\<open>now_posture\<close> for the window, \<open>readings\<close> for
  the ages) and, after them, the reading of \<open>get_deltas\<close> (\<open>now_delta\<close>); its result
  is a function of the store contents and of these readings.
\<close>

definition dashboard ::
  "iso_parser \<Rightarrow> clock \<Rightarrow> (nat \<Rightarrow> clock) \<Rightarrow> clock \<Rightarrow> store \<Rightarrow> dashboard_response" where
  "dashboard parse now_posture readings now_delta st =
     (let cnts = get_dashboard_counts st;
          p = get_posture parse now_posture readings st;
          d = get_deltas parse now_delta st
      in \<lparr>posture = p, counts = by_severity cnts, total_events = total cnts, delta = d\<rparr>)"

section \<open>Attack plans (\<open>attack_engine.py\<close>, \<open>main.py\<close>)\<close>

text \<open>
  Durations and delays are Python floats; they are modelled as real numbers, exact
  arithmetic standing for the float operations. \<open>round(x, n)\<close> and the format
  \<open>f"{x:.3f}"\<close> round to the nearest multiple of \<open>10\<^sup>-\<^sup>n\<close>, ties to even.
\<close>

definition round_half_even :: "real \<Rightarrow> int" where
  "round_half_even x =
     (let f = \<lfloor>x\<rfloor>; r = x - of_int f
      in if r < 1/2 then f else if r > 1/2 then f + 1 else if even f then f else f + 1)"

definition py_round :: "nat \<Rightarrow> real \<Rightarrow> real" where
  "py_round ndigits x = of_int (round_half_even (x * 10 ^ ndigits)) / 10 ^ ndigits"

text \<open>
  What \<open>generate_attack_scenario\<close> may hand to the normalizer. \<open>RawDict\<close> is a dictionary
  with a \<open>"plan"\<close> key: its optional \<open>chain_id\<close> and \<open>duration\<close> and the list under
  \<open>"plan"\<close> (\<open>None\<close> and the empty list both read as \<open>[]\<close>). An entry of that list is
  either a dictionary with an \<open>"event"\<close> key (the delay optional, the event possibly
  \<open>None\<close>) or anything else, taken as a bare event. \<open>RawList\<close> is the old-style list of
  events; \<open>RawOther\<close> is every other value, a dictionary without \<open>"plan"\<close> included.
\<close>

datatype raw_entry = EntryDict "real option" "event option" | EntryBare event

datatype raw_scenario =
    RawDict "string option" "real option" "raw_entry list"
  | RawList "event list"
  | RawOther

record plan_entry =
  delay :: real
  event :: "event option"

record attack_plan =
  plan_chain_id :: "string option"
  duration :: real
  plan :: "plan_entry list"

record runtime_plan = attack_plan +
  start_time :: real
  index :: nat

definition invalid_plan :: attack_plan where
  "invalid_plan = \<lparr>plan_chain_id = Some ''invalid'', duration = 0, plan = []\<rparr>"

text \<open>
  \<open>_build_attack_plan\<close> of the attack engine; \<open>d\<close> is the sample of
  \<open>random.uniform(20.0, 40.0)\<close>. The keys \<open>source_ip\<close>, \<open>dest_port\<close> and \<open>surface\<close> of its
  result are not read by anything downstream and are left out. \<open>stage_delays\<close> is its
  local list \<open>delays\<close>.
\<close>

definition stage_delays :: "real \<Rightarrow> nat \<Rightarrow> real list" where
  "stage_delays dur count =
     (if count = 1 then [0]
      else let step = dur / real (count - 1)
           in map (\<lambda>i. real i * step) [0..<count])"

definition build_attack_plan :: "real \<Rightarrow> string \<Rightarrow> event list \<Rightarrow> raw_scenario" where
  "build_attack_plan d cid evs =
     (if evs = [] then RawDict (Some cid) (Some 0) []
      else
        let duration = d;
            count = length evs;
            delays = stage_delays duration count
        in RawDict (Some cid) (Some duration)
             (map (\<lambda>(dl, ev). EntryDict (Some (py_round 3 dl)) (Some ev)) (zip delays evs)))"

text \<open>
  \<open>_normalize_attack_plan\<close>; \<open>d\<close> is the sample of \<open>random.uniform(20.0, 40.0)\<close> drawn in
  the list branch. An \<open>Event\<close> always has a \<open>chain_id\<close> attribute, so \<open>getattr\<close> returns it
  (possibly \<open>None\<close>) and never the default.
\<close>

definition normalize_entry :: "nat \<times> raw_entry \<Rightarrow> plan_entry" where
  "normalize_entry p =
     (case p of
        (idx, EntryDict dl ev) \<Rightarrow> \<lparr>delay = (case dl of None \<Rightarrow> 0 | Some x \<Rightarrow> x), event = ev\<rparr>
      | (idx, EntryBare ev) \<Rightarrow> \<lparr>delay = real idx, event = Some ev\<rparr>)"

fun normalize_attack_plan :: "real \<Rightarrow> raw_scenario \<Rightarrow> attack_plan" where
  "normalize_attack_plan d (RawDict cid dur plan_entries) =
     \<lparr>plan_chain_id = Some (case cid of None \<Rightarrow> ''unknown'' | Some c \<Rightarrow> c),
      duration = (case dur of None \<Rightarrow> 0 | Some x \<Rightarrow> x),
      plan = map normalize_entry (enumerate 0 plan_entries)\<rparr>"
| "normalize_attack_plan d (RawList evs) =
     (if evs = [] then invalid_plan
      else
        let duration = d;
            per_event = duration / real (max (length evs) 1);
            cid = chain_id (hd evs)
        in \<lparr>plan_chain_id = cid, duration = duration,
            plan = map (\<lambda>(idx, ev). \<lparr>delay = real idx * per_event, event = Some ev\<rparr>)
                       (enumerate 0 evs)\<rparr>)"
| "normalize_attack_plan d RawOther = invalid_plan"

text \<open>
  \<open>_create_runtime_plan\<close>, given the generator's output \<open>raw\<close>; \<open>now\<close> is \<open>time.time()\<close>.
\<close>

definition create_runtime_plan :: "clock \<Rightarrow> real \<Rightarrow> raw_scenario \<Rightarrow> runtime_plan option" where
  "create_runtime_plan now d raw_out =
     (let normalized = normalize_attack_plan d raw_out
      in if plan normalized = [] then None
         else Some \<lparr>plan_chain_id = plan_chain_id normalized,
                     duration = duration normalized,
                     plan = plan normalized,
                     start_time = now, index = 0\<rparr>)"

section \<open>Requests and the scheduler (\<open>main.py\<close>)\<close>

text \<open>
  The globals of \<open>main.py\<close> together with the event store of \<open>state.py\<close>.
\<close>

record app_state =
  attack_plans :: "runtime_plan list"
  LAST_TRIGGER :: "string \<rightharpoonup> real"
  TRIGGER_HISTORY :: "string \<rightharpoonup> real list"
  event_store :: store

definition MAX_ACTIVE_PLANS :: nat where
  "MAX_ACTIVE_PLANS = 15"

definition TRIGGER_COOLDOWN :: real where
  "TRIGGER_COOLDOWN = 1.5"

definition MAX_TRIGGERS_PER_MIN :: nat where
  "MAX_TRIGGERS_PER_MIN = 30"

definition initial_state :: app_state where
  "initial_state =
     \<lparr>attack_plans = [], LAST_TRIGGER = Map.empty, TRIGGER_HISTORY = Map.empty,
      event_store = empty_store\<rparr>"

text \<open>The responses of \<open>trigger_attack\<close>, one constructor per returned dictionary.\<close>

datatype trigger_response =
    ThrottledCooldown real
  | ThrottledRate nat
  | Busy nat nat
  | Skipped
  | Scheduled "string option" real nat nat

fun status :: "trigger_response \<Rightarrow> string" where
  "status (ThrottledCooldown retry_after) = ''throttled''"
| "status (ThrottledRate limit) = ''throttled''"
| "status (Busy active limit) = ''busy''"
| "status Skipped = ''skipped''"
| "status (Scheduled cid approx active limit) = ''scheduled''"

text \<open>
  \<open>trigger_attack\<close>: \<open>client_ip\<close> is the caller's address, \<open>now\<close> the reading of
  \<open>time.time()\<close> (one reading for the request and for the plan's start time), \<open>raw_out\<close>
  the output of \<open>generate_attack_scenario()\<close> and \<open>d\<close> the normalizer's random sample.
\<close>

definition trigger_attack ::
  "string \<Rightarrow> clock \<Rightarrow> raw_scenario \<Rightarrow> real \<Rightarrow> app_state \<Rightarrow> trigger_response \<times> app_state" where
  "trigger_attack client_ip now raw_out d st =
     (let last = (case LAST_TRIGGER st client_ip of None \<Rightarrow> 0 | Some t \<Rightarrow> t)
      in if now - last < TRIGGER_COOLDOWN
         then (ThrottledCooldown (py_round 2 (TRIGGER_COOLDOWN - (now - last))), st)
         else
           let st1 = st\<lparr>LAST_TRIGGER := (LAST_TRIGGER st)(client_ip \<mapsto> now)\<rparr>;
               history = (case TRIGGER_HISTORY st1 client_ip of None \<Rightarrow> [] | Some h \<Rightarrow> h);
               one_minute_ago = now - 60;
               history = filter (\<lambda>t. t \<ge> one_minute_ago) history;
               st2 = st1\<lparr>TRIGGER_HISTORY := (TRIGGER_HISTORY st1)(client_ip \<mapsto> history)\<rparr>
           in if length history \<ge> MAX_TRIGGERS_PER_MIN
              then (ThrottledRate MAX_TRIGGERS_PER_MIN, st2)
              else
                let st3 = st2\<lparr>TRIGGER_HISTORY :=
                                (TRIGGER_HISTORY st2)(client_ip \<mapsto> history @ [now])\<rparr>
                in if length (attack_plans st3) \<ge> MAX_ACTIVE_PLANS
                   then (Busy (length (attack_plans st3)) MAX_ACTIVE_PLANS, st3)
                   else
                     case create_runtime_plan now d raw_out of
                       None \<Rightarrow> (Skipped, st3)
                     | Some p \<Rightarrow>
                         let st4 = st3\<lparr>attack_plans := attack_plans st3 @ [p]\<rparr>
                         in (Scheduled (plan_chain_id p) (py_round 1 (duration p))
                               (length (attack_plans st4)) MAX_ACTIVE_PLANS, st4))"

text \<open>
  \<open>add_event\<close> has no \<open>raise\<close> of its own; what makes a call raise is outside the code and
  is a parameter here: \<open>fault ev st = Some st'\<close> says that storing \<open>ev\<close> in store \<open>st\<close>
  raises and leaves the store as \<open>st'\<close>, \<open>None\<close> that the call returns. The scheduler's
  \<open>try ... except Exception: pass\<close> around the call swallows the exception.
\<close>

type_synonym fault = "event \<Rightarrow> store \<Rightarrow> store option"

definition no_fault :: fault where
  "no_fault ev st = None"

definition try_add_event :: "fault \<Rightarrow> string \<Rightarrow> store \<Rightarrow> event \<Rightarrow> store" where
  "try_add_event fault now_iso st ev =
     (case fault ev st of
        Some st' \<Rightarrow> st'
      | None \<Rightarrow> snd (add_event now_iso ev st))"

text \<open>
  The inner \<open>while\<close> loop of \<open>attack_scheduler_loop\<close> for one plan: \<open>now\<close> is
  \<open>time.time()\<close> of the tick, \<open>now_iso\<close> the \<open>datetime.utcnow().isoformat()\<close> stamped on
  an event when it fires. It returns the cursor and the store. A runtime plan always has
  its \<open>plan\<close>, \<open>index\<close> and \<open>start_time\<close> keys and its entries their \<open>delay\<close>, so the
  defaults of the \<open>get\<close> calls are never used.
\<close>

function emit_due ::
  "fault \<Rightarrow> clock \<Rightarrow> string \<Rightarrow> real \<Rightarrow> plan_entry list \<Rightarrow> nat \<Rightarrow> store \<Rightarrow> nat \<times> store" where
  "emit_due fault now now_iso start entries idx st =
     (if idx < length entries
      then
        let entry = entries ! idx;
            target_time = start + delay entry
        in if now \<ge> target_time
           then
             let st' = (case event entry of
                          None \<Rightarrow> st
                        | Some ev \<Rightarrow> try_add_event fault now_iso st (ev\<lparr>timestamp := now_iso\<rparr>))
             in emit_due fault now now_iso start entries (idx + 1) st'
           else (idx, st)
      else (idx, st))"
  by pat_completeness auto
termination
  by (relation "measure (\<lambda>(fault, now, now_iso, start, entries, idx, st). length entries - idx)")
     auto

declare emit_due.simps [simp del]

text \<open>
  The \<open>for plan in _attack_plans\<close> loop: the plans with their cursors advanced, the list
  \<open>done\<close>, and the store.
\<close>

fun scan_plans ::
  "fault \<Rightarrow> clock \<Rightarrow> string \<Rightarrow> runtime_plan list \<Rightarrow> store
     \<Rightarrow> runtime_plan list \<times> runtime_plan list \<times> store" where
  "scan_plans fault now now_iso [] st = ([], [], st)"
| "scan_plans fault now now_iso (p # ps) st =
     (let (idx, st') = emit_due fault now now_iso (start_time p) (plan p) (index p) st;
          p' = p\<lparr>index := idx\<rparr>;
          (ps', done, st'') = scan_plans fault now now_iso ps st'
      in (p' # ps', (if idx \<ge> length (plan p) then [p'] else []) @ done, st''))"

text \<open>\<open>for p in done: if p in _attack_plans: _attack_plans.remove(p)\<close>, by equality.\<close>

definition remove_done :: "runtime_plan list \<Rightarrow> runtime_plan list \<Rightarrow> runtime_plan list" where
  "remove_done plans done =
     foldl (\<lambda>ps p. if p \<in> set ps then remove1 p ps else ps) plans done"

text \<open>One pass of the scheduler loop (the body of its \<open>while True\<close>).\<close>

definition tick :: "fault \<Rightarrow> clock \<Rightarrow> string \<Rightarrow> app_state \<Rightarrow> app_state" where
  "tick fault now now_iso st =
     (let (plans', done, store') =
            scan_plans fault now now_iso (attack_plans st) (event_store st)
      in st\<lparr>attack_plans := remove_done plans' done, event_store := store'\<rparr>)"

text \<open>
  A run of the system: requests and scheduler ticks in any order.
\<close>

datatype operation =
    Request string clock raw_scenario real
  | Tick fault clock string

fun apply_operation :: "app_state \<Rightarrow> operation \<Rightarrow> app_state" where
  "apply_operation st (Request client_ip now raw_out d) =
     snd (trigger_attack client_ip now raw_out d st)"
| "apply_operation st (Tick fault now now_iso) = tick fault now now_iso st"

definition run :: "operation list \<Rightarrow> app_state \<Rightarrow> app_state" where
  "run ops st = foldl apply_operation st ops"

text \<open>
  Notions used to state what a tick does: an entry of a plan is due at \<open>now\<close> when its
  absolute time has come; the scan reaches the longest run of due entries from the cursor
  on; a plan is complete when its cursor is at the end.
\<close>

definition due :: "clock \<Rightarrow> runtime_plan \<Rightarrow> plan_entry \<Rightarrow> bool" where
  "due now p entry = (start_time p + delay entry \<le> now)"

definition due_prefix :: "clock \<Rightarrow> runtime_plan \<Rightarrow> plan_entry list" where
  "due_prefix now p = takeWhile (due now p) (drop (index p) (plan p))"

definition advance :: "clock \<Rightarrow> runtime_plan \<Rightarrow> runtime_plan" where
  "advance now p = p\<lparr>index := index p + length (due_prefix now p)\<rparr>"

definition complete :: "runtime_plan \<Rightarrow> bool" where
  "complete p = (index p \<ge> length (plan p))"

definition fired :: "clock \<Rightarrow> string \<Rightarrow> runtime_plan \<Rightarrow> event list" where
  "fired now now_iso p =
     List.map_filter (\<lambda>entry. map_option (\<lambda>ev. ev\<lparr>timestamp := now_iso\<rparr>) (event entry))
       (due_prefix now p)"

text \<open>
  The two rate limits at the head of \<open>trigger_attack\<close> let a request through when the
  caller's cooldown has passed and it has made fewer than 30 requests in the last minute.
\<close>

definition admitted :: "string \<Rightarrow> clock \<Rightarrow> app_state \<Rightarrow> bool" where
  "admitted client_ip now st =
     (\<not> now - (case LAST_TRIGGER st client_ip of None \<Rightarrow> 0 | Some t \<Rightarrow> t) < TRIGGER_COOLDOWN \<and>
      \<not> length (filter (\<lambda>t. t \<ge> now - 60)
                  (case TRIGGER_HISTORY st client_ip of None \<Rightarrow> [] | Some h \<Rightarrow> h))
          \<ge> MAX_TRIGGERS_PER_MIN)"

section \<open>Scenario generator (\<open>attack_engine.py\<close>)\<close>

text \<open>
  \<open>_severity_for_stage\<close> and \<open>_build_event_from_template\<close>. A new \<open>Event\<close> takes the
  time of its creation as timestamp (\<open>created_iso\<close>). The values of the \<open>parsed\<close>
  dictionary are kept as text.
\<close>

definition severity_for_stage :: "string \<Rightarrow> string" where
  "severity_for_stage stg =
     (if stg = ''recon'' then ''suspicious''
      else if stg = ''intrusion'' then ''malicious''
      else if stg = ''exploit'' then ''critical''
      else ''benign'')"

definition build_event_from_template ::
  "string \<Rightarrow> string \<Rightarrow> string \<Rightarrow> string \<Rightarrow> string \<Rightarrow> (string \<times> string) list
     \<Rightarrow> string \<Rightarrow> int \<Rightarrow> event" where
  "build_event_from_template created_iso sev stg cid raw_text parsed_dict src port =
     \<lparr>ev_id = Some 0, timestamp = created_iso, source_ip = src, dest_port = port,
      phase = ''attack'', category = stg, severity = sev, chain_id = Some cid,
      stage = Some stg, raw = raw_text, parsed = parsed_dict\<rparr>"

text \<open>
  \<open>generate_attack_scenario\<close> with its random choices as parameters: the duration
  sample \<open>d\<close>, the source address, the port, the chain id, and \<open>picks\<close>, the stage
  sequence with the text and the parsed detail of the template picked for each stage.
\<close>

definition generate_attack_scenario ::
  "real \<Rightarrow> string \<Rightarrow> string \<Rightarrow> int \<Rightarrow> string
     \<Rightarrow> (string \<times> string \<times> (string \<times> string) list) list \<Rightarrow> raw_scenario" where
  "generate_attack_scenario d created_iso src port cid picks =
     build_attack_plan d cid
       (map (\<lambda>(stg, raw_text, parsed_dict).
               build_event_from_template created_iso (severity_for_stage stg) stg cid
                 raw_text parsed_dict src port)
            picks)"

text \<open>What the scheduler reads of a runtime plan: start, duration, delays and cursor.\<close>

definition plan_view :: "runtime_plan \<Rightarrow> real \<times> real \<times> real list \<times> nat" where
  "plan_view p = (start_time p, duration p, map delay (plan p), index p)"

section \<open>Auxiliary lemmas\<close>

subsection \<open>Event store\<close>

lemma deque_append_drop:
  "length xs \<le> MAX_EVENTS \<Longrightarrow>
   deque_append MAX_EVENTS xs x = drop (length (xs @ [x]) - MAX_EVENTS) (xs @ [x])"
  by (cases xs) (auto simp: deque_append_def MAX_EVENTS_def drop_Cons')

lemma add_event_events:
  "length (events st) \<le> MAX_EVENTS \<Longrightarrow> add_event t e st = (e', st') \<Longrightarrow>
   events st' = drop (length (events st @ [e']) - MAX_EVENTS) (events st @ [e'])"
  by (auto simp: add_event_def next_event_id_def Let_def deque_append_drop split: if_splits prod.splits)

lemma drop_drop_append_cap:
  "drop (length (drop (length xs - c) xs @ ys) - c) (drop (length xs - c) xs @ ys)
   = drop (length (xs @ ys) - c) (xs @ (ys::'a list))"
  by (cases "length xs \<le> c") (auto simp: add.commute)

lemma add_events_fifo:
  "add_events xs st0 = (rs, st) \<Longrightarrow> length (events st0) \<le> MAX_EVENTS \<Longrightarrow>
   length rs = length xs \<and>
   events st = drop (length (events st0 @ rs) - MAX_EVENTS) (events st0 @ rs)"
proof (induction xs arbitrary: st0 rs st)
  case Nil
  then show ?case by simp
next
  case (Cons x xs)
  obtain t e where x: "x = (t, e)" by (cases x)
  obtain e' st' where a: "add_event t e st0 = (e', st')" by (cases "add_event t e st0")
  obtain es st'' where b: "add_events xs st' = (es, st'')" by (cases "add_events xs st'")
  from Cons.prems x a b have rs: "rs = e' # es" and st: "st = st''" by auto
  have ev': "events st' = drop (length (events st0 @ [e']) - MAX_EVENTS) (events st0 @ [e'])"
    using add_event_events[OF Cons.prems(2) a] .
  hence len': "length (events st') \<le> MAX_EVENTS" by simp
  from Cons.IH[OF b len'] have l: "length es = length xs"
    and e: "events st'' = drop (length (events st' @ es) - MAX_EVENTS) (events st' @ es)" by auto
  have "events st'' = drop (length ((events st0 @ [e']) @ es) - MAX_EVENTS) ((events st0 @ [e']) @ es)"
    unfolding e ev' by (rule drop_drop_append_cap)
  then show ?case using l rs st by simp
qed

lemma filter_take_mono:
  assumes "i < j" "j \<le> length xs" "P (xs ! i)"
  shows "length (filter P (take i xs)) < length (filter P (take j xs))"
proof -
  have i: "i < length xs" using assms by simp
  have 1: "take (Suc i) xs = take i xs @ [xs ! i]"
    using i by (rule take_Suc_conv_app_nth)
  have "Suc i + (j - Suc i) = j" using assms(1) by simp
  then have 2: "take j xs = take (Suc i) xs @ take (j - Suc i) (drop (Suc i) xs)"
    using take_add[of "Suc i" "j - Suc i" xs] by simp
  have "length (filter P (take j xs)) = length (filter P (take i xs)) + 1 + length (filter P (take (j - Suc i) (drop (Suc i) xs)))"
    unfolding 2 1 using assms(3) by simp
  then show ?thesis by simp
qed

lemma add_event_result:
  "add_event t e st = (e', st') \<Longrightarrow>
   event_counter st' = event_counter st + (if needs_id e then 1 else 0) \<and>
   ev_id e' = (if needs_id e then Some (event_counter st + 1) else ev_id e)"
  by (auto simp: add_event_def next_event_id_def Let_def needs_id_def ensure_timestamp_def split: if_splits prod.splits)

lemma add_events_ids:
  "add_events xs st0 = (rs, st) \<Longrightarrow> i < length xs \<Longrightarrow>
   ev_id (rs ! i) =
     (if needs_id (snd (xs ! i))
      then Some (event_counter st0 + 1 + int (length (filter needs_id (map snd (take i xs)))))
      else ev_id (snd (xs ! i)))"
proof (induction xs arbitrary: st0 rs st i)
  case Nil
  then show ?case by simp
next
  case (Cons x xs)
  obtain t e where x: "x = (t, e)" by (cases x)
  obtain e' st' where a: "add_event t e st0 = (e', st')" by (cases "add_event t e st0")
  obtain es st'' where b: "add_events xs st' = (es, st'')" by (cases "add_events xs st'")
  from Cons.prems x a b have rs: "rs = e' # es" by auto
  note r = add_event_result[OF a]
  show ?case
  proof (cases i)
    case 0
    then show ?thesis using r rs x by simp
  next
    case (Suc j)
    with Cons.prems have j: "j < length xs" by simp
    have c: "event_counter st' = event_counter st0 + (if needs_id e then 1 else 0)"
      using r by simp
    have "ev_id (es ! j) =
     (if needs_id (snd (xs ! j))
      then Some (event_counter st' + 1 + int (length (filter needs_id (map snd (take j xs)))))
      else ev_id (snd (xs ! j)))" by (rule Cons.IH[OF b j])
    then show ?thesis unfolding Suc rs x c by simp
  qed
qed

lemma find_rev_last:
  "find P (rev xs) = (if filter P xs = [] then None else Some (last (filter P xs)))"
  by (induction xs rule: rev_induct) auto

lemma sum_list_bump:
  fixes m :: "'k \<rightharpoonup> nat"
  shows "distinct ks \<Longrightarrow> m k = Some n \<Longrightarrow>
   (\<Sum>x\<leftarrow>ks. the ((m(k \<mapsto> n + 1)) x)) = (\<Sum>x\<leftarrow>ks. the (m x)) + (if k \<in> set ks then 1 else 0)"
  by (induction ks) auto

lemma distinct_known_severities: "distinct known_severities"
  by (simp add: known_severities_def)

lemma zero_counts_apply:
  "zero_counts k = (if k \<in> set known_severities then Some 0 else None)"
  by (simp add: zero_counts_def known_severities_def)

lemma dom_zero_counts: "dom zero_counts = set known_severities"
  by (auto simp: dom_def zero_counts_apply)

lemma count_severity_sum:
  assumes "dom m = set known_severities"
  shows "dom (count_severity m e) = set known_severities \<and>
   severity_sum (count_severity m e) =
     severity_sum m + (if severity e \<in> set known_severities then 1 else 0)"
proof (cases "m (severity e)")
  case None
  then have "severity e \<notin> set known_severities" using assms by (metis domIff)
  then show ?thesis using None assms by (simp add: count_severity_def)
next
  case (Some n)
  then have k: "severity e \<in> set known_severities" using assms by (metis domI)
  have "dom (m(severity e \<mapsto> n + 1)) = set known_severities"
    using assms k by auto
  then show ?thesis using Some k sum_list_bump[of known_severities m, OF distinct_known_severities Some]
    by (simp add: count_severity_def severity_sum_def)
qed

lemma foldl_count_severity:
  "dom m = set known_severities \<Longrightarrow>
   severity_sum (foldl count_severity m es) =
     severity_sum m + length (filter (\<lambda>e. severity e \<in> set known_severities) es)"
proof (induction es arbitrary: m)
  case Nil
  then show ?case by simp
next
  case (Cons e es)
  from count_severity_sum[OF Cons.prems, of e] Cons.IH[of "count_severity m e"]
  show ?case by simp
qed

lemma severity_sum_zero: "severity_sum zero_counts = 0"
  by (simp add: severity_sum_def zero_counts_apply)

subsection \<open>Counters and the posture rules\<close>

lemma map_of_counter_incr:
  "map_of (counter_incr k c) =
     (map_of c)(k \<mapsto> (case map_of c k of None \<Rightarrow> 1 | Some n \<Rightarrow> n + 1))"
  by (induction c) (auto simp: fun_upd_twist)

lemma keys_counter_incr:
  "fst ` set (counter_incr k c) = insert k (fst ` set c)"
  unfolding dom_map_of_conv_image_fst[symmetric] map_of_counter_incr by simp

lemma distinct_counter_incr:
  "distinct (map fst c) \<Longrightarrow> distinct (map fst (counter_incr k c))"
proof (induction c)
  case Nil
  then show ?case by simp
next
  case (Cons a c)
  obtain k' n where a: "a = (k', n)" by (cases a)
  have "fst ` set (counter_incr k c) = insert k (fst ` set c)"
    by (rule keys_counter_incr)
  then show ?case using Cons a by auto
qed

lemma Counter_snoc: "Counter (xs @ [x]) = counter_incr x (Counter xs)"
  by (simp add: Counter_def)

lemma Counter_props:
  "distinct (map fst (Counter xs)) \<and>
   (\<forall>k. map_of (Counter xs) k = (if k \<in> set xs then Some (count_list xs k) else None))"
proof (induction xs rule: rev_induct)
  case Nil
  then show ?case by (simp add: Counter_def)
next
  case (snoc x xs)
  then show ?case
    by (auto simp: Counter_snoc distinct_counter_incr map_of_counter_incr)
qed

lemma Counter_not_Nil: "xs \<noteq> [] \<Longrightarrow> Counter xs \<noteq> []"
proof
  assume "xs \<noteq> []" and c: "Counter xs = []"
  then obtain x where "x \<in> set xs" by (cases xs) auto
  then have "map_of (Counter xs) x = Some (count_list xs x)" using Counter_props[of xs] by simp
  then show False using c by simp
qed




subsection \<open>Windows and the clock\<close>

lemma set_sorted_reverse [simp]: "set (sorted_reverse key xs) = set xs"
  by (simp add: sorted_reverse_def)

lemma in_window_age:
  "in_window parse now seconds e \<Longrightarrow> r \<le> now + later \<Longrightarrow>
   seconds_ago parse r (timestamp e) \<le> seconds + later"
  by (auto simp: in_window_def seconds_ago_def Let_def split: if_splits option.splits)

lemma determine_posture_frozen:
  "determine_posture parse now evs summaries =
   determine_posture_at parse (frozen now) evs summaries"
proof -
  have "map (\<lambda>(i, evt). source_ip evt)
          (filter (\<lambda>(i, evt). severity evt = ''malicious'' \<and>
                     seconds_ago parse now (timestamp evt) \<le> 30) (enumerate 0 evs)) =
        map source_ip
          (filter (\<lambda>evt. severity evt = ''malicious'' \<and>
                     seconds_ago parse now (timestamp evt) \<le> 30) evs)"
    (is "map ?f (filter ?P (enumerate 0 evs)) = map source_ip (filter ?Q evs)")
  proof -
    have "map ?f (filter ?P (enumerate 0 evs)) =
          map source_ip (map snd (filter (?Q \<circ> snd) (enumerate 0 evs)))"
      by (simp add: case_prod_unfold comp_def)
    also have "map snd (filter (?Q \<circ> snd) (enumerate 0 evs)) =
               filter ?Q (map snd (enumerate 0 evs))"
      by (simp only: filter_map)
    finally show ?thesis by simp
  qed
  then show ?thesis
    unfolding determine_posture_def determine_posture_at_def frozen_def by simp
qed

lemma determine_posture_at_clock:
  assumes "\<forall>e \<in> set evs. \<forall>i. seconds_ago parse (r1 i) (timestamp e) \<le> 30"
    and "\<forall>e \<in> set evs. \<forall>i. seconds_ago parse (r2 i) (timestamp e) \<le> 30"
  shows "determine_posture_at parse r1 evs summaries =
         determine_posture_at parse r2 evs summaries"
proof -
  have "filter (\<lambda>(i, evt). severity evt = ''malicious'' \<and>
                seconds_ago parse (r1 i) (timestamp evt) \<le> 30) (enumerate 0 evs) =
        filter (\<lambda>(i, evt). severity evt = ''malicious'' \<and>
                seconds_ago parse (r2 i) (timestamp evt) \<le> 30) (enumerate 0 evs)"
  proof (rule filter_cong[OF refl])
    fix x assume "x \<in> set (enumerate 0 evs)"
    then have "snd x \<in> snd ` set (enumerate 0 evs)" by (rule imageI)
    then have "snd x \<in> set (map snd (enumerate 0 evs))" by (simp only: set_map)
    then have "snd x \<in> set evs" by (simp only: map_snd_enumerate)
    then show "(case x of (i, evt) \<Rightarrow> severity evt = ''malicious'' \<and>
                  seconds_ago parse (r1 i) (timestamp evt) \<le> 30) =
               (case x of (i, evt) \<Rightarrow> severity evt = ''malicious'' \<and>
                  seconds_ago parse (r2 i) (timestamp evt) \<le> 30)"
      using assms by (cases x) auto
  qed
  then show ?thesis unfolding determine_posture_at_def by simp
qed

lemma window_same:
  assumes "\<forall>e \<in> set (events st). in_window parse now1 s e = in_window parse now2 s e"
  shows "get_events_in_window parse now1 s st = get_events_in_window parse now2 s st"
proof -
  have "filter (in_window parse now1 s) (events st) = filter (in_window parse now2 s) (events st)"
    using assms by (intro filter_cong) auto
  then show ?thesis unfolding get_events_in_window_def by simp
qed

lemma window_ages:
  assumes "e \<in> set (get_events_in_window parse now 15 st)" and "r \<le> now + 15"
  shows "seconds_ago parse r (timestamp e) \<le> 30"
proof -
  have "in_window parse now 15 e" using assms(1) by (simp add: get_events_in_window_def)
  from in_window_age[OF this assms(2)] show ?thesis by simp
qed

text \<open>
  The readings of one call can fall on both sides of a window boundary: an event stamped
  exactly 15 seconds before the posture reading is still in the posture window and, a
  microsecond later, no longer in the delta window.
\<close>

lemma dashboard_window_moves_within_call:
  "posture (dashboard (map_of [(''2026-01-01T00:00:00'', 0)]) 15 (frozen 15) (15 + 1/1000000)
      \<lparr>events = [\<lparr>ev_id = Some 1, timestamp = ''2026-01-01T00:00:00'',
         source_ip = ''9.9.9.9'', dest_port = 22, phase = ''attack'', category = ''intrusion'',
         severity = ''malicious'', chain_id = None, stage = Some ''intrusion'', raw = ''x'',
         parsed = []\<rparr>], event_counter = 1\<rparr>) = ELEVATED \<and>
   delta (dashboard (map_of [(''2026-01-01T00:00:00'', 0)]) 15 (frozen 15) (15 + 1/1000000)
      \<lparr>events = [\<lparr>ev_id = Some 1, timestamp = ''2026-01-01T00:00:00'',
         source_ip = ''9.9.9.9'', dest_port = 22, phase = ''attack'', category = ''intrusion'',
         severity = ''malicious'', chain_id = None, stage = Some ''intrusion'', raw = ''x'',
         parsed = []\<rparr>], event_counter = 1\<rparr>) ''malicious'' = Some 0"
proof -
  define parse :: iso_parser where "parse = map_of [(''2026-01-01T00:00:00'', 0)]"
  define st where "st = \<lparr>events = [\<lparr>ev_id = Some 1, timestamp = ''2026-01-01T00:00:00'',
         source_ip = ''9.9.9.9'', dest_port = 22, phase = ''attack'', category = ''intrusion'',
         severity = ''malicious'', chain_id = None, stage = Some ''intrusion'', raw = ''x'',
         parsed = []\<rparr>], event_counter = 1\<rparr>"
  have w1: "get_events_in_window parse 15 15 st = events st"
    by (simp add: st_def parse_def get_events_in_window_def in_window_def sorted_reverse_def)
  have w2: "get_events_in_window parse (15 + 1/1000000) 15 st = []"
    by (simp add: st_def parse_def get_events_in_window_def in_window_def sorted_reverse_def)
  have p: "posture (dashboard parse 15 (frozen 15) (15 + 1/1000000) st) = ELEVATED"
    unfolding dashboard_def Let_def get_posture_def w1
    by (simp add: st_def determine_posture_at_def Counter_def seconds_ago_def parse_def frozen_def)
  have d: "delta (dashboard parse 15 (frozen 15) (15 + 1/1000000) st) ''malicious'' = Some 0"
    unfolding dashboard_def Let_def get_deltas_def w2
    by (simp add: zero_counts_def)
  show ?thesis
    unfolding parse_def[symmetric] st_def[symmetric]
    using p d by simp
qed

subsection \<open>Normalizing a bare list\<close>

lemma map_enumerate_fst:
  "map (\<lambda>(idx, x). f idx) (enumerate 0 xs) = map f [0..<length xs]"
proof -
  have "map (\<lambda>(idx, x). f idx) (enumerate 0 xs) = map (f \<circ> fst) (enumerate 0 xs)"
    by (rule map_cong) auto
  also have "\<dots> = map f (map fst (enumerate 0 xs))" by (simp only: map_map)
  also have "map fst (enumerate 0 xs) = [0..<0 + length xs]" by (rule map_fst_enumerate)
  finally show ?thesis by simp
qed

lemma map_enumerate_snd:
  "map (\<lambda>(idx, x). g x) (enumerate 0 xs) = map g xs"
proof -
  have "map (\<lambda>(idx, x). g x) (enumerate 0 xs) = map (g \<circ> snd) (enumerate 0 xs)"
    by (rule map_cong) auto
  also have "\<dots> = map g (map snd (enumerate 0 xs))" by (simp only: map_map)
  also have "map snd (enumerate 0 xs) = xs" by (rule map_snd_enumerate)
  finally show ?thesis .
qed

lemma list_plan:
  "evs \<noteq> [] \<Longrightarrow>
   plan (normalize_attack_plan d (RawList evs)) =
     map (\<lambda>(idx, ev). \<lparr>delay = real idx * (d / real (length evs)), event = Some ev\<rparr>)
       (enumerate 0 evs)"
proof -
  assume ne: "evs \<noteq> []"
  then have m: "max (length evs) 1 = length evs" by (cases evs) simp_all
  show ?thesis using ne unfolding normalize_attack_plan.simps Let_def m by simp
qed

lemma list_delays:
  "evs \<noteq> [] \<Longrightarrow>
   map delay (plan (normalize_attack_plan d (RawList evs))) =
     map (\<lambda>i. real i * (d / real (length evs))) [0..<length evs]"
proof -
  assume ne: "evs \<noteq> []"
  have "delay \<circ> (\<lambda>(idx, ev). \<lparr>delay = real idx * (d / real (length evs)), event = Some ev\<rparr>)
        = (\<lambda>(idx, ev). real idx * (d / real (length evs)))"
    by auto
  then show ?thesis
    unfolding list_plan[OF ne] map_map by (simp only: map_enumerate_fst)
qed

lemma list_events:
  "evs \<noteq> [] \<Longrightarrow> map event (plan (normalize_attack_plan d (RawList evs))) = map Some evs"
proof -
  assume ne: "evs \<noteq> []"
  have "event \<circ> (\<lambda>(idx, ev). \<lparr>delay = real idx * (d / real (length evs)), event = Some ev\<rparr>)
        = (\<lambda>(idx, ev). Some ev)"
    by auto
  then show ?thesis
    unfolding list_plan[OF ne] map_map by (simp only: map_enumerate_snd)
qed

lemma sorted_scaled_upt:
  "0 \<le> (c::real) \<Longrightarrow> sorted (map (\<lambda>i. real i * c) [0..<n])"
  by (auto simp: sorted_iff_nth_mono intro: mult_right_mono)

subsection \<open>The scheduler tick in closed form\<close>

lemma emit_due_eq:
  "emit_due fault now now_iso start entries idx st =
     (idx + length (takeWhile (\<lambda>entry. start + delay entry \<le> now) (drop idx entries)),
      foldl (try_add_event fault now_iso) st
        (List.map_filter (\<lambda>entry. map_option (\<lambda>ev. ev\<lparr>timestamp := now_iso\<rparr>) (event entry))
           (takeWhile (\<lambda>entry. start + delay entry \<le> now) (drop idx entries))))"
proof (induction fault now now_iso start entries idx st rule: emit_due.induct)
  case (1 fault now now_iso start entries idx st)
  show ?case
  proof (cases "idx < length entries")
    case False
    then show ?thesis by (simp add: emit_due.simps[of _ _ _ _ entries idx] List.map_filter_simps)
  next
    case True
    then have d: "drop idx entries = entries ! idx # drop (Suc idx) entries"
      by (simp add: Cons_nth_drop_Suc)
    show ?thesis
    proof (cases "now \<ge> start + delay (entries ! idx)")
      case False
      then show ?thesis using True
        by (simp add: emit_due.simps[of _ _ _ _ entries idx] d List.map_filter_simps)
    next
      case due: True
      let ?st' = "(case event (entries ! idx) of
                          None \<Rightarrow> st
                        | Some ev \<Rightarrow> try_add_event fault now_iso st (ev\<lparr>timestamp := now_iso\<rparr>))"
      have step: "emit_due fault now now_iso start entries idx st =
                  emit_due fault now now_iso start entries (idx + 1) ?st'"
        using True due by (simp add: emit_due.simps[of _ _ _ _ entries idx] Let_def)
      have ih: "emit_due fault now now_iso start entries (idx + 1) ?st' =
         (idx + 1 + length (takeWhile (\<lambda>entry. start + delay entry \<le> now) (drop (idx + 1) entries)),
          foldl (try_add_event fault now_iso) ?st'
            (List.map_filter (\<lambda>entry. map_option (\<lambda>ev. ev\<lparr>timestamp := now_iso\<rparr>) (event entry))
               (takeWhile (\<lambda>entry. start + delay entry \<le> now) (drop (idx + 1) entries))))"
        using "1.IH"[OF True refl refl due refl] .
      show ?thesis
        unfolding step ih d using due
        by (cases "event (entries ! idx)") (simp_all add: List.map_filter_simps)
    qed
  qed
qed

lemma scan_plans_eq:
  "scan_plans fault now now_iso ps st =
     (map (advance now) ps, filter complete (map (advance now) ps),
      foldl (try_add_event fault now_iso) st (concat (map (fired now now_iso) ps)))"
proof (induction ps arbitrary: st)
  case Nil
  then show ?case by simp
next
  case (Cons p ps)
  have e: "emit_due fault now now_iso (start_time p) (plan p) (index p) st =
       (index (advance now p), foldl (try_add_event fault now_iso) st (fired now now_iso p))"
    unfolding emit_due_eq by (simp add: advance_def due_prefix_def due_def[abs_def] fired_def)
  have a: "p\<lparr>index := index (advance now p)\<rparr> = advance now p"
    by (simp add: advance_def)
  have c: "(length (plan p) \<le> index (advance now p)) = complete (advance now p)"
    by (simp add: complete_def advance_def)
  show ?case
    unfolding scan_plans.simps e Cons.IH Let_def prod.case a c by simp
qed

lemma remove_done_step: "(if p \<in> set ps then remove1 p ps else ps) = remove1 p ps"
  by (simp add: remove1_idem)

lemma foldl_remove1_filter:
  "\<forall>z \<in> set zs. \<not> P z \<Longrightarrow>
   foldl (\<lambda>ps p. remove1 p ps) (zs @ xs) (filter P xs) = zs @ filter (\<lambda>x. \<not> P x) xs"
proof (induction xs arbitrary: zs)
  case Nil
  then show ?case by simp
next
  case (Cons x xs)
  show ?case
  proof (cases "P x")
    case True
    then have "x \<notin> set zs" using Cons.prems by auto
    then have "remove1 x (zs @ x # xs) = zs @ xs" by (simp add: remove1_append)
    then show ?thesis using True Cons.IH[OF Cons.prems] by simp
  next
    case False
    then have "\<forall>z \<in> set (zs @ [x]). \<not> P z" using Cons.prems by auto
    from Cons.IH[OF this] show ?thesis using False by simp
  qed
qed

lemma remove_done_filter:
  "remove_done xs (filter P xs) = filter (\<lambda>x. \<not> P x) xs"
  unfolding remove_done_def remove_done_step
  using foldl_remove1_filter[of "[]" P xs] by simp

lemma tick_eq:
  "tick fault now now_iso st =
     st\<lparr>attack_plans := filter (\<lambda>p. \<not> complete p) (map (advance now) (attack_plans st)),
        event_store := foldl (try_add_event fault now_iso) (event_store st)
                         (concat (map (fired now now_iso) (attack_plans st)))\<rparr>"
  unfolding tick_def scan_plans_eq Let_def prod.case remove_done_filter ..

subsection \<open>Requests and the ceiling\<close>

lemma trigger_attack_plans:
  "attack_plans (snd (trigger_attack client_ip now raw_out d st)) = attack_plans st \<or>
   (length (attack_plans st) < MAX_ACTIVE_PLANS \<and>
    (\<exists>p. attack_plans (snd (trigger_attack client_ip now raw_out d st)) = attack_plans st @ [p]))"
  by (auto simp: trigger_attack_def Let_def split: option.splits)

lemma trigger_attack_bound:
  "length (attack_plans st) \<le> MAX_ACTIVE_PLANS \<Longrightarrow>
   length (attack_plans (snd (trigger_attack client_ip now raw_out d st))) \<le> MAX_ACTIVE_PLANS"
  using trigger_attack_plans[of client_ip now raw_out d st] by auto

lemma trigger_attack_full:
  "length (attack_plans st) \<ge> MAX_ACTIVE_PLANS \<Longrightarrow>
   attack_plans (snd (trigger_attack client_ip now raw_out d st)) = attack_plans st"
  using trigger_attack_plans[of client_ip now raw_out d st] by auto

lemma trigger_attack_busy:
  "length (attack_plans st) \<ge> MAX_ACTIVE_PLANS \<Longrightarrow>
   fst (trigger_attack client_ip now raw_out d st) =
     (if now - (case LAST_TRIGGER st client_ip of None \<Rightarrow> 0 | Some t \<Rightarrow> t) < TRIGGER_COOLDOWN
      then ThrottledCooldown (py_round 2 (TRIGGER_COOLDOWN -
             (now - (case LAST_TRIGGER st client_ip of None \<Rightarrow> 0 | Some t \<Rightarrow> t))))
      else if length (filter (\<lambda>t. t \<ge> now - 60)
                  (case TRIGGER_HISTORY st client_ip of None \<Rightarrow> [] | Some h \<Rightarrow> h))
              \<ge> MAX_TRIGGERS_PER_MIN
      then ThrottledRate MAX_TRIGGERS_PER_MIN
      else Busy (length (attack_plans st)) MAX_ACTIVE_PLANS)"
  by (simp add: trigger_attack_def Let_def)

lemma tick_plans_length:
  "length (attack_plans (tick fault now now_iso st)) \<le> length (attack_plans st)"
proof -
  have "length (filter (\<lambda>p. \<not> complete p) (map (advance now) (attack_plans st)))
        \<le> length (map (advance now) (attack_plans st))"
    by (rule length_filter_le)
  then show ?thesis unfolding tick_eq by simp
qed

lemma apply_operation_bound:
  "length (attack_plans st) \<le> MAX_ACTIVE_PLANS \<Longrightarrow>
   length (attack_plans (apply_operation st x)) \<le> MAX_ACTIVE_PLANS"
proof (cases x)
  case (Request client_ip now raw_out d)
  then show "length (attack_plans st) \<le> MAX_ACTIVE_PLANS \<Longrightarrow> ?thesis"
    using trigger_attack_bound[of st client_ip now raw_out d] by simp
next
  case (Tick fault now now_iso)
  then show "length (attack_plans st) \<le> MAX_ACTIVE_PLANS \<Longrightarrow> ?thesis"
    using tick_plans_length[of fault now now_iso st] by simp
qed

lemma run_bound:
  "length (attack_plans st) \<le> MAX_ACTIVE_PLANS \<Longrightarrow>
   length (attack_plans (run ops st)) \<le> MAX_ACTIVE_PLANS"
  unfolding run_def
  by (induction ops arbitrary: st) (simp_all add: apply_operation_bound)

subsection \<open>Rounding\<close>

lemma round_half_even_cases:
  "(round_half_even x = \<lfloor>x\<rfloor> \<and> x - of_int \<lfloor>x\<rfloor> \<le> 1/2) \<or>
   (round_half_even x = \<lfloor>x\<rfloor> + 1 \<and> x - of_int \<lfloor>x\<rfloor> \<ge> 1/2)"
  unfolding round_half_even_def Let_def by auto

lemma round_half_even_upper: "of_int (round_half_even x) \<le> x + 1/2"
proof -
  have f: "of_int \<lfloor>x\<rfloor> \<le> x" by (rule of_int_floor_le)
  from round_half_even_cases[of x] show ?thesis
  proof (elim disjE conjE)
    assume "round_half_even x = \<lfloor>x\<rfloor>"
    then show ?thesis using f by linarith
  next
    assume "round_half_even x = \<lfloor>x\<rfloor> + 1" "x - of_int \<lfloor>x\<rfloor> \<ge> 1/2"
    then show ?thesis by simp
  qed
qed

lemma round_half_even_lower: "x - 1/2 \<le> of_int (round_half_even x)"
proof -
  have f: "x < of_int \<lfloor>x\<rfloor> + 1" by linarith
  from round_half_even_cases[of x] show ?thesis
  proof (elim disjE conjE)
    assume "round_half_even x = \<lfloor>x\<rfloor>" "x - of_int \<lfloor>x\<rfloor> \<le> 1/2"
    then show ?thesis by simp
  next
    assume "round_half_even x = \<lfloor>x\<rfloor> + 1"
    then show ?thesis using f by linarith
  qed
qed

lemma py_round_3_upper: "py_round 3 x \<le> x + 1/2000"
proof -
  have "of_int (round_half_even (x * 1000)) \<le> x * 1000 + 1/2" by (rule round_half_even_upper)
  then show ?thesis unfolding py_round_def by (simp add: field_simps)
qed

lemma round_half_even_mono: "x \<le> y \<Longrightarrow> round_half_even x \<le> round_half_even y"
proof -
  assume xy: "x \<le> y"
  then have fl: "\<lfloor>x\<rfloor> \<le> \<lfloor>y\<rfloor>" by (rule floor_mono)
  have ux: "round_half_even x \<le> \<lfloor>x\<rfloor> + 1" and ly: "\<lfloor>y\<rfloor> \<le> round_half_even y"
    unfolding round_half_even_def Let_def by auto
  show ?thesis
  proof (cases "\<lfloor>x\<rfloor> < \<lfloor>y\<rfloor>")
    case True
    then show ?thesis using ux ly by linarith
  next
    case False
    then have e: "\<lfloor>x\<rfloor> = \<lfloor>y\<rfloor>" using fl by simp
    show ?thesis unfolding round_half_even_def Let_def e using xy by auto
  qed
qed

lemma py_round_mono: "x \<le> y \<Longrightarrow> py_round n x \<le> py_round n y"
proof -
  assume "x \<le> y"
  then have "x * 10 ^ n \<le> y * 10 ^ n" by simp
  then have "round_half_even (x * 10 ^ n) \<le> round_half_even (y * 10 ^ n)"
    by (rule round_half_even_mono)
  then show ?thesis unfolding py_round_def by (simp add: divide_right_mono)
qed

subsection \<open>Generator-built plans\<close>

lemma normalize_entries_dict:
  "map normalize_entry (enumerate k (map (\<lambda>(dl, ev). EntryDict (Some (g dl)) (Some ev)) zs)) =
   map (\<lambda>(dl, ev). \<lparr>delay = g dl, event = Some ev\<rparr>) zs"
  by (induction zs arbitrary: k) (auto simp: normalize_entry_def)

lemma length_stage_delays: "0 < n \<Longrightarrow> length (stage_delays d n) = n"
  by (simp add: stage_delays_def Let_def)

lemma stage_delays_le:
  assumes "0 \<le> d" and "x \<in> set (stage_delays d n)"
  shows "x \<le> d"
proof (cases "n = 1")
  case True
  then show ?thesis using assms by (simp add: stage_delays_def)
next
  case False
  then obtain i where i: "i < n" and x: "x = real i * (d / real (n - 1))"
    using assms(2) by (auto simp: stage_delays_def Let_def)
  from i False have n: "0 < real (n - 1)" and le: "real i \<le> real (n - 1)" by simp_all
  have "real i * d \<le> real (n - 1) * d" using le assms(1) by (rule mult_right_mono)
  then have "real i * d / real (n - 1) \<le> d" using n by (simp add: field_simps)
  then show ?thesis unfolding x by simp
qed

lemma sorted_stage_delays: "0 \<le> d \<Longrightarrow> sorted (stage_delays d n)"
proof (cases "n = 1")
  case True
  then show ?thesis by (simp add: stage_delays_def)
next
  case False
  assume "0 \<le> d"
  then have "0 \<le> d / real (n - 1)" by simp
  then have "sorted (map (\<lambda>i. real i * (d / real (n - 1))) [0..<n])"
    by (rule sorted_scaled_upt)
  then show ?thesis using False unfolding stage_delays_def Let_def by simp
qed

lemma built_plan:
  "evs \<noteq> [] \<Longrightarrow>
   normalize_attack_plan d' (build_attack_plan d cid evs) =
     \<lparr>plan_chain_id = Some cid, duration = d,
      plan = map (\<lambda>(dl, ev). \<lparr>delay = py_round 3 dl, event = Some ev\<rparr>)
               (zip (stage_delays d (length evs)) evs)\<rparr>"
  by (simp add: build_attack_plan_def Let_def normalize_entries_dict)

lemma built_plan_delays:
  assumes "evs \<noteq> []"
  shows "map delay (plan (normalize_attack_plan d' (build_attack_plan d cid evs))) =
         map (py_round 3) (stage_delays d (length evs))"
proof -
  have l: "length (stage_delays d (length evs)) = length evs"
    using assms by (simp add: length_stage_delays)
  have "map delay (map (\<lambda>(dl, ev). \<lparr>delay = py_round 3 dl, event = Some ev\<rparr>)
               (zip (stage_delays d (length evs)) evs)) =
        map (py_round 3) (map fst (zip (stage_delays d (length evs)) evs))"
    by (simp add: case_prod_unfold comp_def)
  also have "map fst (zip (stage_delays d (length evs)) evs) = stage_delays d (length evs)"
    using l by (rule map_fst_zip)
  finally show ?thesis unfolding built_plan[OF assms] by simp
qed

lemma sorted_map_mono:
  "sorted xs \<Longrightarrow> (\<And>x y. x \<le> y \<Longrightarrow> f x \<le> f y) \<Longrightarrow> sorted (map f xs)"
  by (induction xs) auto

lemma built_plan_props:
  assumes "0 \<le> d" and "evs \<noteq> []"
  shows "sorted (map delay (plan (normalize_attack_plan d' (build_attack_plan d cid evs))))"
    and "\<forall>entry \<in> set (plan (normalize_attack_plan d' (build_attack_plan d cid evs))).
           delay entry \<le> d + 1/2000"
proof -
  show "sorted (map delay (plan (normalize_attack_plan d' (build_attack_plan d cid evs))))"
    unfolding built_plan_delays[OF assms(2)]
    by (intro sorted_map_mono sorted_stage_delays assms(1) py_round_mono)
  have "\<forall>x \<in> set (map delay (plan (normalize_attack_plan d' (build_attack_plan d cid evs)))).
          x \<le> d + 1/2000"
    unfolding built_plan_delays[OF assms(2)]
  proof
    fix x assume "x \<in> set (map (py_round 3) (stage_delays d (length evs)))"
    then obtain y where y: "y \<in> set (stage_delays d (length evs))" and x: "x = py_round 3 y"
      by auto
    have "py_round 3 y \<le> y + 1/2000" by (rule py_round_3_upper)
    also have "y \<le> d" using assms(1) y by (rule stage_delays_le)
    finally show "x \<le> d + 1/2000" unfolding x by simp
  qed
  then show "\<forall>entry \<in> set (plan (normalize_attack_plan d' (build_attack_plan d cid evs))).
           delay entry \<le> d + 1/2000"
    by simp
qed

lemma takeWhile_sorted_filter:
  "sorted (map delay xs) \<Longrightarrow>
   takeWhile (\<lambda>e. s + delay e \<le> (t::real)) xs = filter (\<lambda>e. s + delay e \<le> t) xs"
proof (induction xs)
  case Nil
  then show ?case by simp
next
  case (Cons x xs)
  show ?case
  proof (cases "s + delay x \<le> t")
    case True
    then show ?thesis using Cons by simp
  next
    case False
    then have "\<forall>e \<in> set xs. \<not> s + delay e \<le> t" using Cons.prems by force
    then have "filter (\<lambda>e. s + delay e \<le> t) xs = []" by (simp add: filter_empty_conv)
    then show ?thesis using False by simp
  qed
qed

lemma advance_all_due:
  assumes "\<forall>entry \<in> set (drop (index p) (plan p)). due now p entry"
  shows "complete (advance now p)"
    and "index p \<le> length (plan p) \<Longrightarrow> index (advance now p) = length (plan p)"
proof -
  have "due_prefix now p = drop (index p) (plan p)"
    unfolding due_prefix_def using assms by (simp add: takeWhile_eq_all_conv)
  then have i: "index (advance now p) = index p + (length (plan p) - index p)"
    by (simp add: advance_def)
  show "complete (advance now p)" using i by (simp add: complete_def advance_def)
  show "index p \<le> length (plan p) \<Longrightarrow> index (advance now p) = length (plan p)"
    using i by simp
qed

lemma create_runtime_plan_built:
  assumes "create_runtime_plan start d' (build_attack_plan d cid evs) = Some q"
  shows "evs \<noteq> []"
    and "plan q = plan (normalize_attack_plan d' (build_attack_plan d cid evs))"
    and "duration q = d" and "start_time q = start" and "index q = 0"
proof -
  show ne: "evs \<noteq> []"
    using assms by (auto simp: create_runtime_plan_def build_attack_plan_def Let_def)
  have q: "q = \<lparr>plan_chain_id = plan_chain_id (normalize_attack_plan d' (build_attack_plan d cid evs)),
                duration = duration (normalize_attack_plan d' (build_attack_plan d cid evs)),
                plan = plan (normalize_attack_plan d' (build_attack_plan d cid evs)),
                start_time = start, index = 0\<rparr>"
    using assms by (simp add: create_runtime_plan_def Let_def split: if_splits)
  show "plan q = plan (normalize_attack_plan d' (build_attack_plan d cid evs))"
    and "start_time q = start" and "index q = 0"
    by (simp_all add: q)
  show "duration q = d" by (simp add: q built_plan[OF ne])
qed

section \<open>Verified properties\<close>

subsection \<open>Event store\<close>

text \<open>
  C4. Starting from the empty store, a run of \<open>add_event\<close> calls returns one stored event
  per call; every event submitted without an id (missing or 0) is given 1 plus the number
  of earlier such events, so the assigned ids are 1, 2, 3, ... in insertion order and
  strictly increasing; the buffer holds the last \<open>MAX_EVENTS = 500\<close> stored events in
  insertion order, so after \<open>500 + k\<close> insertions it holds exactly 500 events, the
  \<open>(k+1)\<close>-th to the \<open>(500+k)\<close>-th.
\<close>

theorem event_store_ids_and_eviction:
  assumes "add_events xs empty_store = (rs, st)"
  shows "length rs = length xs \<and>
    (\<forall>i<length xs. needs_id (snd (xs ! i)) \<longrightarrow>
        ev_id (rs ! i) = Some (1 + int (length (filter (needs_id \<circ> snd) (take i xs))))) \<and>
    (\<forall>i j. i < j \<and> j < length xs \<and> needs_id (snd (xs ! i)) \<and> needs_id (snd (xs ! j)) \<longrightarrow>
        the (ev_id (rs ! i)) < the (ev_id (rs ! j))) \<and>
    events st = drop (length xs - MAX_EVENTS) rs \<and>
    (\<forall>k. length xs = MAX_EVENTS + k \<longrightarrow>
        length (events st) = MAX_EVENTS \<and> events st = drop k rs)"
proof -
  have len: "length rs = length xs"
    and ev: "events st = drop (length xs - MAX_EVENTS) rs"
    using add_events_fifo[OF assms] by (simp_all add: empty_store_def)
  have ids: "ev_id (rs ! i) = Some (1 + int (length (filter (needs_id \<circ> snd) (take i xs))))"
    if "i < length xs" "needs_id (snd (xs ! i))" for i
    using add_events_ids[OF assms that(1)] that(2) by (simp add: empty_store_def filter_map)
  have incr: "the (ev_id (rs ! i)) < the (ev_id (rs ! j))"
    if "i < j" "j < length xs" "needs_id (snd (xs ! i))" "needs_id (snd (xs ! j))" for i j
  proof -
    have "length (filter (needs_id \<circ> snd) (take i xs)) < length (filter (needs_id \<circ> snd) (take j xs))"
      using that by (intro filter_take_mono) simp_all
    then show ?thesis using ids[of i] ids[of j] that by simp
  qed
  have cap: "length (events st) = MAX_EVENTS \<and> events st = drop k rs"
    if "length xs = MAX_EVENTS + k" for k
    using ev len that by simp
  show ?thesis using len ev ids incr cap by blast
qed

theorem event_store_ids_and_eviction_witness:
  "let e = \<lparr>ev_id = Some 0, timestamp = [], source_ip = ''1.1.1.1'', dest_port = 80,
             phase = ''noise'', category = ''noise'', severity = ''benign'', chain_id = None,
             stage = Some ''noise'', raw = ''Idle tick'', parsed = []\<rparr>;
       xs = replicate 502 (''2026-01-01T00:00:00'', e);
       rs = fst (add_events xs empty_store);
       st = snd (add_events xs empty_store)
   in add_events xs empty_store = (rs, st) \<and> needs_id e \<and> length xs = MAX_EVENTS + 2 \<and>
      length rs = 502 \<and> ev_id (rs ! 0) = Some 1 \<and> ev_id (rs ! 501) = Some 502 \<and>
      the (ev_id (rs ! 0)) < the (ev_id (rs ! 501)) \<and>
      length (events st) = 500 \<and> events st = drop 2 rs"
proof -
  define e where "e = \<lparr>ev_id = Some 0, timestamp = [], source_ip = ''1.1.1.1'', dest_port = 80,
             phase = ''noise'', category = ''noise'', severity = ''benign'', chain_id = None,
             stage = Some ''noise'', raw = ''Idle tick'', parsed = []\<rparr>"
  define xs where "xs = replicate 502 (''2026-01-01T00:00:00'', e)"
  define rs where "rs = fst (add_events xs empty_store)"
  define st where "st = snd (add_events xs empty_store)"
  have h: "add_events xs empty_store = (rs, st)" by (simp add: rs_def st_def)
  have n: "needs_id e" by (simp add: needs_id_def e_def)
  have l: "length xs = MAX_EVENTS + 2" by (simp add: xs_def MAX_EVENTS_def)
  have x: "xs ! 0 = (''2026-01-01T00:00:00'', e)" "xs ! 501 = (''2026-01-01T00:00:00'', e)"
    by (simp_all add: xs_def)
  have t: "length (filter (needs_id \<circ> snd) (take 501 xs)) = 501"
    using n by (simp add: xs_def)
  note T = event_store_ids_and_eviction[OF h]
  have 1: "length rs = 502" using T l by (simp add: MAX_EVENTS_def)
  have 2: "ev_id (rs ! 0) = Some 1" "ev_id (rs ! 501) = Some 502"
    using T l n x t by (simp_all add: MAX_EVENTS_def)
  have 3: "the (ev_id (rs ! 0)) < the (ev_id (rs ! 501))" using 2 by simp
  have 4: "length (events st) = 500 \<and> events st = drop 2 rs"
    using T l by (simp add: MAX_EVENTS_def)
  show ?thesis
    unfolding Let_def e_def[symmetric] xs_def[symmetric] rs_def[symmetric] st_def[symmetric]
    using h n l 1 2 3 4 by simp
qed

text \<open>
  C9. \<open>add_event\<close> keeps every id that is neither missing nor 0 (so in particular every
  id > 0); two events submitted with the same such id are both stored under it, so ids in
  the buffer need not be unique; \<open>get_event_by_id\<close> returns the last event of the buffer
  (the most recently inserted one, the buffer being in insertion order) that bears the
  requested id, and \<open>None\<close> when no buffered event bears it.
\<close>

theorem add_event_keeps_id_and_lookup_newest:
  "(\<forall>n. ev_id e = Some n \<and> n \<noteq> 0 \<longrightarrow>
        ev_id (fst (add_event t e st)) = Some n \<and>
        event_counter (snd (add_event t e st)) = event_counter st) \<and>
   (\<forall>n. ev_id e = Some n \<and> ev_id e' = Some n \<and> n \<noteq> 0 \<longrightarrow>
        (\<exists>ys a b. events (snd (add_events [(t, e), (t', e')] st)) = ys @ [a, b] \<and>
                 ev_id a = Some n \<and> ev_id b = Some n)) \<and>
   get_event_by_id st i =
     (if filter (\<lambda>x. ev_id x = Some i) (events st) = [] then None
      else Some (last (filter (\<lambda>x. ev_id x = Some i) (events st))))"
proof -
  have keep: "ev_id (fst (add_event t e st)) = Some n \<and>
        event_counter (snd (add_event t e st)) = event_counter st"
    if "ev_id e = Some n" "n \<noteq> 0" for n t e st
    using that by (simp add: add_event_def ensure_timestamp_def Let_def)
  have dup: "\<exists>ys a b. events (snd (add_events [(t, e), (t', e')] st)) = ys @ [a, b] \<and>
                 ev_id a = Some n \<and> ev_id b = Some n"
    if e: "ev_id e = Some n" and e': "ev_id e' = Some n" and n: "n \<noteq> 0" for n
  proof -
    obtain a st1 where a: "add_event t e st = (a, st1)" by (cases "add_event t e st")
    obtain b st2 where b: "add_event t' e' st1 = (b, st2)" by (cases "add_event t' e' st1")
    have ia: "ev_id a = Some n" using keep[OF e n, of t st] a by simp
    have ib: "ev_id b = Some n" using keep[OF e' n, of t' st1] b by simp
    have 1: "\<exists>ys. events st1 = ys @ [a]"
      using a e n by (auto simp: add_event_def Let_def deque_append_def MAX_EVENTS_def)
    then obtain ys where ys: "events st1 = ys @ [a]" by blast
    have "events st2 = deque_append MAX_EVENTS (events st1) b"
      using b e' n by (auto simp: add_event_def Let_def)
    then have "\<exists>zs. events st2 = zs @ [a, b]"
      unfolding ys by (cases ys) (auto simp: deque_append_def MAX_EVENTS_def)
    then show ?thesis using a b ia ib by auto
  qed
  show ?thesis
    using keep[of e _ t st] dup by (simp add: get_event_by_id_def find_rev_last)
qed

theorem add_event_keeps_id_and_lookup_newest_witness:
  "let e = \<lparr>ev_id = Some 7, timestamp = ''2026-01-01T00:00:00'', source_ip = ''9.9.9.9'',
             dest_port = 22, phase = ''attack'', category = ''recon'', severity = ''suspicious'',
             chain_id = Some ''abcd1234'', stage = Some ''recon'', raw = ''first'', parsed = []\<rparr>;
       e' = e\<lparr>raw := ''second''\<rparr>;
       st = snd (add_events [(''2026-01-01T00:00:01'', e), (''2026-01-01T00:00:02'', e')] empty_store)
   in ev_id e = Some 7 \<and> ev_id e' = Some 7 \<and> (7::int) \<noteq> 0 \<and>
      ev_id (fst (add_event ''2026-01-01T00:00:01'' e empty_store)) = Some 7 \<and>
      events st = [e, e'] \<and>
      get_event_by_id st 7 = Some e' \<and> get_event_by_id st 8 = None"
proof -
  define e where "e = \<lparr>ev_id = Some 7, timestamp = ''2026-01-01T00:00:00'', source_ip = ''9.9.9.9'',
             dest_port = 22, phase = ''attack'', category = ''recon'', severity = ''suspicious'',
             chain_id = Some ''abcd1234'', stage = Some ''recon'', raw = ''first'', parsed = []\<rparr>"
  define e' where "e' = e\<lparr>raw := ''second''\<rparr>"
  define st where "st = snd (add_events [(''2026-01-01T00:00:01'', e), (''2026-01-01T00:00:02'', e')] empty_store)"
  have i: "ev_id e = Some 7" "ev_id e' = Some 7" by (simp_all add: e_def e'_def)
  have ev: "events st = [e, e']"
    by (simp add: st_def add_event_def ensure_timestamp_def deque_append_def MAX_EVENTS_def
        empty_store_def e_def e'_def Let_def)
  note T = add_event_keeps_id_and_lookup_newest
  have k: "ev_id (fst (add_event ''2026-01-01T00:00:01'' e empty_store)) = Some 7"
    using T[of e "''2026-01-01T00:00:01''" empty_store] i by simp
  have g: "get_event_by_id st 7 = Some e'" "get_event_by_id st 8 = None"
    using T[of e "[]" st e' "[]" 7] T[of e "[]" st e' "[]" 8] ev i by simp_all
  show ?thesis
    unfolding Let_def e_def[symmetric] e'_def[symmetric] st_def[symmetric]
    using i k ev g by simp
qed


text \<open>
  C10. \<open>get_dashboard_counts\<close> reports the buffer length as the total; its four
  per-severity counts add up to the number of buffered events whose severity is one of
  benign, suspicious, malicious, critical; so the total is at least that sum, and strictly
  greater exactly when some buffered event carries another severity.
\<close>

theorem dashboard_counts_total_vs_known:
  "total (get_dashboard_counts st) = length (events st) \<and>
   severity_sum (by_severity (get_dashboard_counts st)) =
     length (filter (\<lambda>e. severity e \<in> set known_severities) (events st)) \<and>
   severity_sum (by_severity (get_dashboard_counts st)) \<le> total (get_dashboard_counts st) \<and>
   (severity_sum (by_severity (get_dashboard_counts st)) < total (get_dashboard_counts st)
      \<longleftrightarrow> (\<exists>e \<in> set (events st). severity e \<notin> set known_severities))"
proof -
  have s: "severity_sum (by_severity (get_dashboard_counts st)) =
     length (filter (\<lambda>e. severity e \<in> set known_severities) (events st))"
    using foldl_count_severity[OF dom_zero_counts, of "events st"]
    by (simp add: get_dashboard_counts_def severity_sum_zero)
  have t: "total (get_dashboard_counts st) = length (events st)"
    by (simp add: get_dashboard_counts_def)
  have "(length (filter P xs) < length xs) = (\<exists>x\<in>set xs. \<not> P x)" for P and xs :: "event list"
    by (metis filter_True length_filter_le length_filter_less nat_less_le)
  then show ?thesis unfolding s t by simp
qed

theorem dashboard_counts_total_vs_known_witness:
  "let e = \<lparr>ev_id = Some 1, timestamp = ''2026-01-01T00:00:00'', source_ip = ''9.9.9.9'',
             dest_port = 22, phase = ''attack'', category = ''recon'', severity = ''benign'',
             chain_id = None, stage = Some ''noise'', raw = ''x'', parsed = []\<rparr>;
       st = \<lparr>events = [e, e\<lparr>severity := ''unheard-of''\<rparr>, e\<lparr>severity := ''malicious''\<rparr>],
             event_counter = 3\<rparr>
   in total (get_dashboard_counts st) = 3 \<and>
      severity_sum (by_severity (get_dashboard_counts st)) = 2 \<and>
      (\<exists>x \<in> set (events st). severity x \<notin> set known_severities)"
proof -
  define e where "e = \<lparr>ev_id = Some 1, timestamp = ''2026-01-01T00:00:00'', source_ip = ''9.9.9.9'',
             dest_port = 22, phase = ''attack'', category = ''recon'', severity = ''benign'',
             chain_id = None, stage = Some ''noise'', raw = ''x'', parsed = []\<rparr>"
  define st where "st = \<lparr>events = [e, e\<lparr>severity := ''unheard-of''\<rparr>, e\<lparr>severity := ''malicious''\<rparr>],
             event_counter = 3\<rparr>"
  have f: "filter (\<lambda>x. severity x \<in> set known_severities) (events st)
            = [e, e\<lparr>severity := ''malicious''\<rparr>]"
    by (simp add: st_def e_def known_severities_def)
  have x: "\<exists>x \<in> set (events st). severity x \<notin> set known_severities"
    by (simp add: st_def e_def known_severities_def)
  have l: "length (events st) = 3" by (simp add: st_def)
  show ?thesis
    unfolding Let_def e_def[symmetric] st_def[symmetric]
    using dashboard_counts_total_vs_known[of st] f x l by simp
qed

subsection \<open>Posture and classifier\<close>



text \<open>
  C8. For an event whose stage is exploit, whose severity is critical and whose timestamp
  parses to the current time, \<open>classify_event\<close> returns risk critical and confidence
  exactly 1 (0.3 + 0.45 + 0.3 + 0.1 = 1.15, clamped), and its factors are the exploit
  entry, the critical-severity entry and the recency entry, in this order.
\<close>

theorem classify_event_exploit_critical_now:
  assumes "stage e = Some ''exploit''" and "severity e = ''critical''"
    and "parse (timestamp e) = Some now"
  shows "risk (classify_event parse now e) = ''critical'' \<and>
         confidence (classify_event parse now e) = 1 \<and>
         confidence (classify_event parse now e) = max 0 (min (0.3 + 0.45 + 0.3 + 0.1) 1) \<and>
         factors (classify_event parse now e) =
           [''exploit behavior detected'',
            ''severity=critical '' @ arrow @ '' high concern'',
            ''recent activity (<60s)''] \<and>
         ''exploit behavior detected'' \<in> set (factors (classify_event parse now e)) \<and>
         ''severity=critical '' @ arrow @ '' high concern''
            \<in> set (factors (classify_event parse now e))"
proof -
  have age: "seconds_ago parse now (timestamp e) = 0"
    using assms(3) by (simp add: seconds_ago_def)
  have c: "classify_event parse now e =
     \<lparr>risk = ''critical'', confidence = 1,
      factors = [''exploit behavior detected'',
            ''severity=critical '' @ arrow @ '' high concern'',
            ''recent activity (<60s)'']\<rparr>"
    unfolding classify_event_def age Let_def using assms(1,2) by simp
  show ?thesis unfolding c by simp
qed

theorem classify_event_exploit_critical_now_witness:
  "let e = \<lparr>ev_id = Some 1, timestamp = ''2026-01-01T00:00:10'', source_ip = ''9.9.9.9'',
             dest_port = 22, phase = ''attack'', category = ''exploit'', severity = ''critical'',
             chain_id = Some ''abcd1234'', stage = Some ''exploit'', raw = ''x'', parsed = []\<rparr>;
       parse = map_of [(''2026-01-01T00:00:10'', 10)]
   in stage e = Some ''exploit'' \<and> severity e = ''critical'' \<and> parse (timestamp e) = Some 10 \<and>
      risk (classify_event parse 10 e) = ''critical'' \<and>
      confidence (classify_event parse 10 e) = 1"
proof -
  define e where "e = \<lparr>ev_id = Some 1, timestamp = ''2026-01-01T00:00:10'', source_ip = ''9.9.9.9'',
             dest_port = 22, phase = ''attack'', category = ''exploit'', severity = ''critical'',
             chain_id = Some ''abcd1234'', stage = Some ''exploit'', raw = ''x'', parsed = []\<rparr>"
  define parse :: iso_parser where "parse = map_of [(''2026-01-01T00:00:10'', 10)]"
  have h: "stage e = Some ''exploit''" "severity e = ''critical''" "parse (timestamp e) = Some 10"
    by (simp_all add: e_def parse_def)
  show ?thesis
    unfolding Let_def e_def[symmetric] parse_def[symmetric]
    using classify_event_exploit_critical_now[where e=e and parse=parse and now=10, OF h] h by simp
qed

subsection \<open>Dashboard\<close>

text \<open>
  C3. As the code has it: the counts by severity and the total of \<open>dashboard()\<close> depend
  on the store alone, so they are the same in two calls with no write in between,
  whatever the clock. The posture and the delta depend on the clock readings a call
  takes: one for the window of the posture, one for each malicious event examined, one
  for the window of the delta. The outputs of the two calls are identical when the same
  buffered events lie in the 15-second window at the posture readings of both calls,
  the same buffered events lie in it at the delta readings of both calls, and each call
  takes its per-event readings at most 15 seconds after its posture reading.
\<close>

theorem dashboard_same_store:
  "counts (dashboard parse w1 r1 d1 st) = counts (dashboard parse w2 r2 d2 st) \<and>
   total_events (dashboard parse w1 r1 d1 st) = total_events (dashboard parse w2 r2 d2 st) \<and>
   ((\<forall>e \<in> set (events st). in_window parse w1 15 e = in_window parse w2 15 e) \<and>
    (\<forall>e \<in> set (events st). in_window parse d1 15 e = in_window parse d2 15 e) \<and>
    (\<forall>i. r1 i \<le> w1 + 15) \<and> (\<forall>i. r2 i \<le> w2 + 15)
      \<longrightarrow> dashboard parse w1 r1 d1 st = dashboard parse w2 r2 d2 st)"
proof -
  have "dashboard parse w1 r1 d1 st = dashboard parse w2 r2 d2 st"
    if hw: "\<forall>e \<in> set (events st). in_window parse w1 15 e = in_window parse w2 15 e"
      and hd: "\<forall>e \<in> set (events st). in_window parse d1 15 e = in_window parse d2 15 e"
      and h1: "\<forall>i. r1 i \<le> w1 + 15" and h2: "\<forall>i. r2 i \<le> w2 + 15"
  proof -
    have w: "get_events_in_window parse w1 15 st = get_events_in_window parse w2 15 st"
      using hw by (rule window_same)
    have dw: "get_events_in_window parse d1 15 st = get_events_in_window parse d2 15 st"
      using hd by (rule window_same)
    have a1: "\<forall>e \<in> set (get_events_in_window parse w2 15 st).
                \<forall>i. seconds_ago parse (r1 i) (timestamp e) \<le> 30"
      using window_ages[of _ parse w1 st] h1 unfolding w by blast
    have a2: "\<forall>e \<in> set (get_events_in_window parse w2 15 st).
                \<forall>i. seconds_ago parse (r2 i) (timestamp e) \<le> 30"
      using window_ages[of _ parse w2 st] h2 by blast
    have p: "get_posture parse w1 r1 st = get_posture parse w2 r2 st"
      unfolding get_posture_def Let_def w
      by (rule determine_posture_at_clock[OF a1 a2])
    have d: "get_deltas parse d1 st = get_deltas parse d2 st"
      unfolding get_deltas_def dw ..
    show ?thesis unfolding dashboard_def Let_def p d ..
  qed
  then show ?thesis by (simp add: dashboard_def Let_def)
qed

theorem dashboard_same_store_witness:
  "let parse = map_of [(''2026-01-01T00:00:00'', 0)];
       st = \<lparr>events = [\<lparr>ev_id = Some 1, timestamp = ''2026-01-01T00:00:00'',
                    source_ip = ''9.9.9.9'', dest_port = 22, phase = ''attack'',
                    category = ''intrusion'', severity = ''malicious'', chain_id = None,
                    stage = Some ''intrusion'', raw = ''x'', parsed = []\<rparr>], event_counter = 1\<rparr>
   in list_all (\<lambda>e. in_window parse 10 15 e = in_window parse 12 15 e) (events st) \<and>
      list_all (\<lambda>e. in_window parse 11 15 e = in_window parse 13 15 e) (events st) \<and>
      (\<forall>i. frozen (21/2) i \<le> 10 + 15) \<and> (\<forall>i. frozen (25/2) i \<le> 12 + 15) \<and>
      dashboard parse 10 (frozen (21/2)) 11 st = dashboard parse 12 (frozen (25/2)) 13 st \<and>
      posture (dashboard parse 10 (frozen (21/2)) 11 st) = ELEVATED"
proof -
  define parse :: iso_parser where "parse = map_of [(''2026-01-01T00:00:00'', 0)]"
  define st where "st = \<lparr>events = [\<lparr>ev_id = Some 1, timestamp = ''2026-01-01T00:00:00'',
                    source_ip = ''9.9.9.9'', dest_port = 22, phase = ''attack'',
                    category = ''intrusion'', severity = ''malicious'', chain_id = None,
                    stage = Some ''intrusion'', raw = ''x'', parsed = []\<rparr>], event_counter = 1\<rparr>"
  have h: "\<forall>e \<in> set (events st). in_window parse 10 15 e = in_window parse 12 15 e"
    "\<forall>e \<in> set (events st). in_window parse 11 15 e = in_window parse 13 15 e"
    by (simp_all add: st_def parse_def in_window_def)
  have r: "\<forall>i. frozen (21/2) i \<le> 10 + 15" "\<forall>i. frozen (25/2) i \<le> 12 + 15"
    by (simp_all add: frozen_def)
  have w: "get_events_in_window parse 10 15 st = events st"
    by (simp add: st_def parse_def get_events_in_window_def in_window_def sorted_reverse_def)
  have p: "posture (dashboard parse 10 (frozen (21/2)) 11 st) = ELEVATED"
    unfolding dashboard_def Let_def get_posture_def w
    by (simp add: st_def determine_posture_at_def Counter_def seconds_ago_def parse_def frozen_def)
  show ?thesis
    unfolding Let_def parse_def[symmetric] st_def[symmetric]
    using dashboard_same_store[of parse 10 "frozen (21/2)" 11 st 12 "frozen (25/2)" 13] h r p
    by (simp add: list_all_iff)
qed

text \<open>
  The claim as stated fails when the clock moves on: one malicious event stamped at time 0
  is inside the window of a call made at time 10 and outside the window of a call made at
  time 30, on the same store.
\<close>

theorem dashboard_clock_counterexample:
  "posture (dashboard (map_of [(''2026-01-01T00:00:00'', 0)]) 10 (frozen 10) 10 \<lparr>events = [\<lparr>ev_id = Some 1, timestamp = ''2026-01-01T00:00:00'',
                    source_ip = ''9.9.9.9'', dest_port = 22, phase = ''attack'',
                    category = ''intrusion'', severity = ''malicious'', chain_id = None,
                    stage = Some ''intrusion'', raw = ''x'', parsed = []\<rparr>], event_counter = 1\<rparr>) = ELEVATED \<and>
   posture (dashboard (map_of [(''2026-01-01T00:00:00'', 0)]) 30 (frozen 30) 30 \<lparr>events = [\<lparr>ev_id = Some 1, timestamp = ''2026-01-01T00:00:00'',
                    source_ip = ''9.9.9.9'', dest_port = 22, phase = ''attack'',
                    category = ''intrusion'', severity = ''malicious'', chain_id = None,
                    stage = Some ''intrusion'', raw = ''x'', parsed = []\<rparr>], event_counter = 1\<rparr>) = MONITOR \<and>
   delta (dashboard (map_of [(''2026-01-01T00:00:00'', 0)]) 10 (frozen 10) 10 \<lparr>events = [\<lparr>ev_id = Some 1, timestamp = ''2026-01-01T00:00:00'',
                    source_ip = ''9.9.9.9'', dest_port = 22, phase = ''attack'',
                    category = ''intrusion'', severity = ''malicious'', chain_id = None,
                    stage = Some ''intrusion'', raw = ''x'', parsed = []\<rparr>], event_counter = 1\<rparr>) ''malicious'' = Some 1 \<and>
   delta (dashboard (map_of [(''2026-01-01T00:00:00'', 0)]) 30 (frozen 30) 30 \<lparr>events = [\<lparr>ev_id = Some 1, timestamp = ''2026-01-01T00:00:00'',
                    source_ip = ''9.9.9.9'', dest_port = 22, phase = ''attack'',
                    category = ''intrusion'', severity = ''malicious'', chain_id = None,
                    stage = Some ''intrusion'', raw = ''x'', parsed = []\<rparr>], event_counter = 1\<rparr>) ''malicious'' = Some 0 \<and>
   dashboard (map_of [(''2026-01-01T00:00:00'', 0)]) 10 (frozen 10) 10 \<lparr>events = [\<lparr>ev_id = Some 1, timestamp = ''2026-01-01T00:00:00'',
                    source_ip = ''9.9.9.9'', dest_port = 22, phase = ''attack'',
                    category = ''intrusion'', severity = ''malicious'', chain_id = None,
                    stage = Some ''intrusion'', raw = ''x'', parsed = []\<rparr>], event_counter = 1\<rparr> \<noteq> dashboard (map_of [(''2026-01-01T00:00:00'', 0)]) 30 (frozen 30) 30 \<lparr>events = [\<lparr>ev_id = Some 1, timestamp = ''2026-01-01T00:00:00'',
                    source_ip = ''9.9.9.9'', dest_port = 22, phase = ''attack'',
                    category = ''intrusion'', severity = ''malicious'', chain_id = None,
                    stage = Some ''intrusion'', raw = ''x'', parsed = []\<rparr>], event_counter = 1\<rparr>"
proof -
  define parse :: iso_parser where "parse = map_of [(''2026-01-01T00:00:00'', 0)]"
  define st where "st = \<lparr>events = [\<lparr>ev_id = Some 1, timestamp = ''2026-01-01T00:00:00'',
                    source_ip = ''9.9.9.9'', dest_port = 22, phase = ''attack'',
                    category = ''intrusion'', severity = ''malicious'', chain_id = None,
                    stage = Some ''intrusion'', raw = ''x'', parsed = []\<rparr>], event_counter = 1\<rparr>"
  have w1: "get_events_in_window parse 10 15 st = events st"
    by (simp add: st_def parse_def get_events_in_window_def in_window_def sorted_reverse_def)
  have w2: "get_events_in_window parse 30 15 st = []"
    by (simp add: st_def parse_def get_events_in_window_def in_window_def sorted_reverse_def)
  have p1: "posture (dashboard parse 10 (frozen 10) 10 st) = ELEVATED"
    unfolding dashboard_def Let_def get_posture_def w1
    by (simp add: st_def determine_posture_at_def Counter_def seconds_ago_def parse_def frozen_def)
  have p2: "posture (dashboard parse 30 (frozen 30) 30 st) = MONITOR"
    unfolding dashboard_def Let_def get_posture_def w2
    by (simp add: determine_posture_at_def)
  have d1: "delta (dashboard parse 10 (frozen 10) 10 st) ''malicious'' = Some 1"
    unfolding dashboard_def Let_def get_deltas_def w1
    by (simp add: st_def count_severity_def zero_counts_def)
  have d2: "delta (dashboard parse 30 (frozen 30) 30 st) ''malicious'' = Some 0"
    unfolding dashboard_def Let_def get_deltas_def w2
    by (simp add: zero_counts_def)
  have ne: "dashboard parse 10 (frozen 10) 10 st \<noteq> dashboard parse 30 (frozen 30) 30 st"
    using p1 p2 by auto
  show ?thesis
    unfolding parse_def[symmetric] st_def[symmetric]
    using p1 p2 d1 d2 ne by simp
qed

subsection \<open>Plan normalizer\<close>

text \<open>
  C1. As the code has it: for a bare list of N events (N at least 2) and a sampled
  duration d in [20, 40], the normalized plan has duration d, carries the events in
  order, and gives the i-th event (from 0) the delay i * d / N; the delays are
  non-decreasing and the last one is d * (N - 1) / N = d - d / N, which is below the
  duration by one N-th of it.
\<close>

theorem normalize_bare_list_spacing:
  assumes "2 \<le> length evs" and "20 \<le> d" and "d \<le> 40"
  shows "duration (normalize_attack_plan d (RawList evs)) = d \<and>
         20 \<le> duration (normalize_attack_plan d (RawList evs)) \<and>
         duration (normalize_attack_plan d (RawList evs)) \<le> 40 \<and>
         map event (plan (normalize_attack_plan d (RawList evs))) = map Some evs \<and>
         map delay (plan (normalize_attack_plan d (RawList evs))) =
           map (\<lambda>i. real i * (d / real (length evs))) [0..<length evs] \<and>
         sorted (map delay (plan (normalize_attack_plan d (RawList evs)))) \<and>
         last (map delay (plan (normalize_attack_plan d (RawList evs)))) = d - d / real (length evs) \<and>
         last (map delay (plan (normalize_attack_plan d (RawList evs))))
           < duration (normalize_attack_plan d (RawList evs))"
proof -
  let ?n = "length evs"
  have ne: "evs \<noteq> []" using assms(1) by fastforce
  have n: "0 < ?n" using assms(1) by linarith
  have dur: "duration (normalize_attack_plan d (RawList evs)) = d"
    using ne by (simp add: Let_def)
  note evs = list_events[OF ne, of d]
  note dl = list_delays[OF ne, of d]
  have srt: "sorted (map delay (plan (normalize_attack_plan d (RawList evs))))"
    unfolding dl using assms(2) by (intro sorted_scaled_upt) simp
  obtain m where m: "length evs = Suc m" using ne by (cases evs) auto
  have "last (map (\<lambda>i. real i * (d / real (Suc m))) [0..<Suc m]) = real m * (d / real (Suc m))"
    by (simp add: last_map)
  also have "\<dots> = d - d / real (Suc m)"
    by (simp add: field_simps)
  finally have lst: "last (map delay (plan (normalize_attack_plan d (RawList evs)))) = d - d / real ?n"
    unfolding dl m .
  have "d / real ?n > 0" using n assms(2) by simp
  then have lt: "last (map delay (plan (normalize_attack_plan d (RawList evs)))) < d"
    unfolding lst by simp
  show ?thesis using dur evs dl srt lst lt assms by simp
qed

theorem normalize_bare_list_spacing_witness:
  "let evs = [build_event_from_template ''2026-01-01T00:00:00'' ''suspicious'' ''recon'' ''abcd1234''
            ''HTTP directory probe detected'' [] ''9.9.9.9'' 80,
          build_event_from_template ''2026-01-01T00:00:00'' ''critical'' ''exploit'' ''abcd1234''
            ''Exploit payload upload attempt detected'' [] ''9.9.9.9'' 80]
   in 2 \<le> length evs \<and> (20::real) \<le> 20 \<and> (20::real) \<le> 40 \<and>
      duration (normalize_attack_plan 20 (RawList evs)) = 20 \<and>
      map delay (plan (normalize_attack_plan 20 (RawList evs))) = [0, 10] \<and>
      last (map delay (plan (normalize_attack_plan 20 (RawList evs)))) = 10"
proof -
  define evs where "evs = [build_event_from_template ''2026-01-01T00:00:00'' ''suspicious'' ''recon'' ''abcd1234''
            ''HTTP directory probe detected'' [] ''9.9.9.9'' 80,
          build_event_from_template ''2026-01-01T00:00:00'' ''critical'' ''exploit'' ''abcd1234''
            ''Exploit payload upload attempt detected'' [] ''9.9.9.9'' 80]"
  have l: "length evs = 2" by (simp add: evs_def)
  have h: "2 \<le> length evs" "(20::real) \<le> 20" "(20::real) \<le> 40" using l by simp_all
  have u: "[0..<2] = [0, Suc 0]" by (simp add: upt_rec)
  show ?thesis
    unfolding Let_def evs_def[symmetric]
    using normalize_bare_list_spacing[OF h] l by (simp add: u)
qed

text \<open>
  The claim as stated fails: with two events and a sampled duration of 20 the code gives
  the delays 0 and 10, where the formula i * duration / (N - 1) gives 0 and 20; the last
  delay is 10, half the duration, not the duration.
\<close>

theorem normalize_bare_list_counterexample:
  "map delay (plan (normalize_attack_plan 20 (RawList
         [build_event_from_template ''2026-01-01T00:00:00'' ''suspicious'' ''recon'' ''abcd1234''
            ''HTTP directory probe detected'' [] ''9.9.9.9'' 80,
          build_event_from_template ''2026-01-01T00:00:00'' ''critical'' ''exploit'' ''abcd1234''
            ''Exploit payload upload attempt detected'' [] ''9.9.9.9'' 80]))) = [0, 10] \<and>
   [0 * (20 / (2 - 1)), 1 * (20 / (2 - 1))] = [0, 20 :: real] \<and>
   duration (normalize_attack_plan 20 (RawList
         [build_event_from_template ''2026-01-01T00:00:00'' ''suspicious'' ''recon'' ''abcd1234''
            ''HTTP directory probe detected'' [] ''9.9.9.9'' 80,
          build_event_from_template ''2026-01-01T00:00:00'' ''critical'' ''exploit'' ''abcd1234''
            ''Exploit payload upload attempt detected'' [] ''9.9.9.9'' 80])) = 20 \<and>
   last (map delay (plan (normalize_attack_plan 20 (RawList
         [build_event_from_template ''2026-01-01T00:00:00'' ''suspicious'' ''recon'' ''abcd1234''
            ''HTTP directory probe detected'' [] ''9.9.9.9'' 80,
          build_event_from_template ''2026-01-01T00:00:00'' ''critical'' ''exploit'' ''abcd1234''
            ''Exploit payload upload attempt detected'' [] ''9.9.9.9'' 80]))))
     \<noteq> duration (normalize_attack_plan 20 (RawList
         [build_event_from_template ''2026-01-01T00:00:00'' ''suspicious'' ''recon'' ''abcd1234''
            ''HTTP directory probe detected'' [] ''9.9.9.9'' 80,
          build_event_from_template ''2026-01-01T00:00:00'' ''critical'' ''exploit'' ''abcd1234''
            ''Exploit payload upload attempt detected'' [] ''9.9.9.9'' 80]))"
  by (simp add: Let_def)

subsection \<open>Requests and scheduler\<close>

text \<open>
  C5. A request never takes the number of active plans above \<open>MAX_ACTIVE_PLANS = 15\<close>:
  from a state within the ceiling the state after \<open>trigger_attack\<close> is within it; a
  request arriving with the count at or above the ceiling leaves the active plans as they
  were and is never answered \<open>scheduled\<close>: when the per-client rate limits that run
  first let it through, the answer is \<open>busy\<close> with the count and the limit (otherwise
  it is \<open>throttled\<close>); and after any sequence of requests and scheduler ticks from the
  initial state the count is at most the ceiling.
\<close>

theorem active_plans_within_ceiling:
  "(length (attack_plans st) \<le> MAX_ACTIVE_PLANS \<longrightarrow>
      length (attack_plans (snd (trigger_attack client_ip now raw_out d st))) \<le> MAX_ACTIVE_PLANS) \<and>
   (length (attack_plans st) \<ge> MAX_ACTIVE_PLANS \<longrightarrow>
      attack_plans (snd (trigger_attack client_ip now raw_out d st)) = attack_plans st \<and>
      (status (fst (trigger_attack client_ip now raw_out d st)) = ''busy'' \<or>
       status (fst (trigger_attack client_ip now raw_out d st)) = ''throttled'') \<and>
      (admitted client_ip now st \<longrightarrow>
         fst (trigger_attack client_ip now raw_out d st) =
           Busy (length (attack_plans st)) MAX_ACTIVE_PLANS)) \<and>
   length (attack_plans (run ops initial_state)) \<le> MAX_ACTIVE_PLANS"
proof -
  have i: "length (attack_plans initial_state) \<le> MAX_ACTIVE_PLANS"
    by (simp add: initial_state_def)
  have b: "status (fst (trigger_attack client_ip now raw_out d st)) = ''busy'' \<or>
       status (fst (trigger_attack client_ip now raw_out d st)) = ''throttled''"
    if "length (attack_plans st) \<ge> MAX_ACTIVE_PLANS"
    unfolding trigger_attack_busy[OF that] by simp
  have a: "fst (trigger_attack client_ip now raw_out d st) =
           Busy (length (attack_plans st)) MAX_ACTIVE_PLANS"
    if "length (attack_plans st) \<ge> MAX_ACTIVE_PLANS" "admitted client_ip now st"
    unfolding trigger_attack_busy[OF that(1)] using that(2) by (simp add: admitted_def)
  show ?thesis
    using trigger_attack_bound[of st client_ip now raw_out d]
      trigger_attack_full[of st client_ip now raw_out d] b a run_bound[OF i, of ops]
    by blast
qed

theorem active_plans_within_ceiling_witness:
  "let p = \<lparr>plan_chain_id = Some ''abcd1234'', duration = 20,
             plan = [\<lparr>delay = 0, event = None\<rparr>], start_time = 990, index = 0\<rparr>;
       st = \<lparr>attack_plans = replicate 15 p, LAST_TRIGGER = Map.empty,
              TRIGGER_HISTORY = Map.empty, event_store = empty_store\<rparr>
   in length (attack_plans st) \<le> MAX_ACTIVE_PLANS \<and>
      length (attack_plans st) \<ge> MAX_ACTIVE_PLANS \<and>
      admitted ''10.0.0.1'' 1000 st \<and>
      fst (trigger_attack ''10.0.0.1'' 1000 RawOther 25 st) = Busy 15 15 \<and>
      attack_plans (snd (trigger_attack ''10.0.0.1'' 1000 RawOther 25 st)) = replicate 15 p"
proof -
  define p where "p = \<lparr>plan_chain_id = Some ''abcd1234'', duration = 20,
             plan = [\<lparr>delay = 0, event = None\<rparr>], start_time = 990, index = 0\<rparr>"
  define st where "st = \<lparr>attack_plans = replicate 15 p, LAST_TRIGGER = Map.empty,
              TRIGGER_HISTORY = Map.empty, event_store = empty_store\<rparr>"
  have l: "length (attack_plans st) = 15" "attack_plans st = replicate 15 p"
    by (simp_all add: st_def)
  have h: "length (attack_plans st) \<le> MAX_ACTIVE_PLANS" "length (attack_plans st) \<ge> MAX_ACTIVE_PLANS"
    using l by (simp_all add: MAX_ACTIVE_PLANS_def)
  have a: "admitted ''10.0.0.1'' 1000 st"
    by (simp add: admitted_def st_def TRIGGER_COOLDOWN_def MAX_TRIGGERS_PER_MIN_def)
  show ?thesis
    unfolding Let_def p_def[symmetric] st_def[symmetric]
    using active_plans_within_ceiling[of st "''10.0.0.1''" 1000 RawOther 25 "[]"] h a l
    by (simp add: MAX_ACTIVE_PLANS_def)
qed

text \<open>
  C7. Whatever calls of \<open>add_event\<close> raise during a tick, the exception is swallowed: the
  cursor of a plan ends past the whole run of due entries starting at its old position,
  the active plans after the tick are the same as in a tick without any failure, and the
  store is the result of attempting, in order, every due entry of every active plan, the
  entries after a failed one and those of the other plans included.
\<close>

theorem tick_swallows_store_failures:
  "fst (emit_due fault now now_iso start entries idx s) =
     idx + length (takeWhile (\<lambda>entry. start + delay entry \<le> now) (drop idx entries)) \<and>
   attack_plans (tick fault now now_iso st) = attack_plans (tick no_fault now now_iso st) \<and>
   attack_plans (tick fault now now_iso st) =
     filter (\<lambda>p. \<not> complete p) (map (advance now) (attack_plans st)) \<and>
   event_store (tick fault now now_iso st) =
     foldl (try_add_event fault now_iso) (event_store st)
       (concat (map (fired now now_iso) (attack_plans st)))"
  by (simp add: emit_due_eq tick_eq)

theorem tick_swallows_store_failures_witness:
  "let a = \<lparr>ev_id = Some 0, timestamp = [], source_ip = ''9.9.9.9'', dest_port = 22,
             phase = ''attack'', category = ''recon'', severity = ''suspicious'',
             chain_id = Some ''abcd1234'', stage = Some ''recon'', raw = ''A'', parsed = []\<rparr>;
       b = a\<lparr>raw := ''B''\<rparr>;
       c = a\<lparr>raw := ''C'', chain_id := Some ''efgh5678''\<rparr>;
       p1 = \<lparr>plan_chain_id = Some ''abcd1234'', duration = 1,
              plan = [\<lparr>delay = 0, event = Some a\<rparr>, \<lparr>delay = 1, event = Some b\<rparr>],
              start_time = 100, index = 0\<rparr>;
       p2 = \<lparr>plan_chain_id = Some ''efgh5678'', duration = 0,
              plan = [\<lparr>delay = 0, event = Some c\<rparr>], start_time = 100, index = 0\<rparr>;
       st = \<lparr>attack_plans = [p1, p2], LAST_TRIGGER = Map.empty,
              TRIGGER_HISTORY = Map.empty, event_store = empty_store\<rparr>;
       fault = (\<lambda>ev s. if raw ev = ''A'' then Some s else None);
       st' = tick fault 105 ''2026-01-01T00:01:45'' st
   in attack_plans st' = [] \<and>
      map raw (events (event_store st')) = [''B'', ''C''] \<and>
      map ev_id (events (event_store st')) = [Some 1, Some 2]"
proof -
  define a where "a = \<lparr>ev_id = Some 0, timestamp = [], source_ip = ''9.9.9.9'', dest_port = 22,
             phase = ''attack'', category = ''recon'', severity = ''suspicious'',
             chain_id = Some ''abcd1234'', stage = Some ''recon'', raw = ''A'', parsed = []\<rparr>"
  define b where "b = a\<lparr>raw := ''B''\<rparr>"
  define c where "c = a\<lparr>raw := ''C'', chain_id := Some ''efgh5678''\<rparr>"
  define p1 where "p1 = \<lparr>plan_chain_id = Some ''abcd1234'', duration = 1,
              plan = [\<lparr>delay = 0, event = Some a\<rparr>, \<lparr>delay = 1, event = Some b\<rparr>],
              start_time = 100, index = 0\<rparr>"
  define p2 where "p2 = \<lparr>plan_chain_id = Some ''efgh5678'', duration = 0,
              plan = [\<lparr>delay = 0, event = Some c\<rparr>], start_time = 100, index = 0\<rparr>"
  define st where "st = \<lparr>attack_plans = [p1, p2], LAST_TRIGGER = Map.empty,
              TRIGGER_HISTORY = Map.empty, event_store = empty_store\<rparr>"
  define fault :: fault where "fault = (\<lambda>ev s. if raw ev = ''A'' then Some s else None)"
  define iso where "iso = ''2026-01-01T00:01:45''"
  have d1: "due_prefix 105 p1 = plan p1" and d2: "due_prefix 105 p2 = plan p2"
    by (simp_all add: due_prefix_def due_def p1_def p2_def)
  have f1: "fired 105 iso p1 = [a\<lparr>timestamp := iso\<rparr>, b\<lparr>timestamp := iso\<rparr>]"
    and f2: "fired 105 iso p2 = [c\<lparr>timestamp := iso\<rparr>]"
    unfolding fired_def d1 d2 by (simp_all add: p1_def p2_def List.map_filter_simps)
  have r: "raw a = ''A''" "raw b = ''B''" "raw c = ''C''" "ev_id a = Some 0" "ev_id b = Some 0"
    "ev_id c = Some 0"
    by (simp_all add: a_def b_def c_def)
  have c1: "complete (advance 105 p1)" and c2: "complete (advance 105 p2)"
    unfolding advance_def d1 d2 by (simp_all add: complete_def p1_def p2_def)
  note T = tick_swallows_store_failures[of fault 105 iso 0 "[]" 0 empty_store st]
  have T3: "attack_plans (tick fault 105 iso st) =
     filter (\<lambda>p. \<not> complete p) (map (advance 105) (attack_plans st))"
    using T by blast
  have T4: "event_store (tick fault 105 iso st) =
     foldl (try_add_event fault iso) (event_store st)
       (concat (map (fired 105 iso) (attack_plans st)))"
    using T by blast
  have P: "attack_plans (tick fault 105 iso st) = []"
    unfolding T3 using c1 c2 by (simp add: st_def)
  have S: "event_store (tick fault 105 iso st) =
      foldl (try_add_event fault iso) empty_store
        [a\<lparr>timestamp := iso\<rparr>, b\<lparr>timestamp := iso\<rparr>, c\<lparr>timestamp := iso\<rparr>]"
    unfolding T4 using f1 f2 by (simp add: st_def)
  have E: "map raw (events (event_store (tick fault 105 iso st))) = [''B'', ''C'']"
    "map ev_id (events (event_store (tick fault 105 iso st))) = [Some 1, Some 2]"
    unfolding S using r
    by (simp_all add: try_add_event_def fault_def add_event_def next_event_id_def
        ensure_timestamp_def deque_append_def MAX_EVENTS_def empty_store_def Let_def)
  show ?thesis
    unfolding Let_def a_def[symmetric] b_def[symmetric] c_def[symmetric] p1_def[symmetric]
      p2_def[symmetric] st_def[symmetric] fault_def[symmetric] iso_def[symmetric]
    using P E by simp
qed

text \<open>
  C6. As the code has it: in a tick at time \<open>now\<close> the cursor of every active plan
  moves over the run of consecutive due entries (\<open>start_time + delay \<le> now\<close>) that starts
  at it, the scan stopping at the first entry not yet due; the events of exactly these
  entries are handed to the store, plan by plan in order; with non-decreasing delays, as
  in every generator-built plan, the run is the set of all remaining due entries. After
  the scan the plans whose cursor is at the end are removed, each once, the others stay.
  A plan whose remaining entries are all due reaches \<open>index = len(plan)\<close> in that tick
  and is not in the active set afterwards. The delays of a generator-built plan are
  rounded to 3 decimals and are at most its duration plus 0.0005, so a tick at
  \<open>start_time + duration + 0.0005\<close> or later finds all its entries due.
\<close>

theorem tick_emits_due_run_and_retires:
  "attack_plans (tick fault now now_iso st) =
     filter (\<lambda>p. \<not> complete p) (map (advance now) (attack_plans st)) \<and>
   event_store (tick fault now now_iso st) =
     foldl (try_add_event fault now_iso) (event_store st)
       (concat (map (fired now now_iso) (attack_plans st))) \<and>
   length (attack_plans (tick fault now now_iso st)) +
     length (filter complete (map (advance now) (attack_plans st))) = length (attack_plans st) \<and>
   (sorted (map delay (drop (index p) (plan p))) \<longrightarrow>
      due_prefix now p = filter (due now p) (drop (index p) (plan p))) \<and>
   ((\<forall>entry \<in> set (drop (index p) (plan p)). due now p entry) \<longrightarrow>
      complete (advance now p) \<and>
      (index p \<le> length (plan p) \<longrightarrow> index (advance now p) = length (plan p)) \<and>
      advance now p \<notin> set (attack_plans (tick fault now now_iso st))) \<and>
   (0 \<le> d \<and>
    create_runtime_plan start d' (generate_attack_scenario d created_iso src port cid picks) = Some q
    \<longrightarrow>
      duration q = d \<and> start_time q = start \<and> index q = 0 \<and>
      sorted (map delay (plan q)) \<and>
      (\<forall>entry \<in> set (plan q). delay entry \<le> duration q + 1/2000) \<and>
      (start_time q + duration q + 1/2000 \<le> now \<longrightarrow>
         (\<forall>entry \<in> set (drop (index q) (plan q)). due now q entry)))"
proof -
  note t = tick_eq[of fault now now_iso st]
  have 1: "attack_plans (tick fault now now_iso st) =
     filter (\<lambda>p. \<not> complete p) (map (advance now) (attack_plans st))"
    unfolding t by simp
  have 2: "event_store (tick fault now now_iso st) =
     foldl (try_add_event fault now_iso) (event_store st)
       (concat (map (fired now now_iso) (attack_plans st)))"
    unfolding t by simp
  have 3: "length (attack_plans (tick fault now now_iso st)) +
     length (filter complete (map (advance now) (attack_plans st))) = length (attack_plans st)"
    unfolding 1
    using sum_length_filter_compl[of complete "map (advance now) (attack_plans st)"]
    by simp
  have 4: "due_prefix now p = filter (due now p) (drop (index p) (plan p))"
    if "sorted (map delay (drop (index p) (plan p)))"
    unfolding due_prefix_def due_def[abs_def] using that by (rule takeWhile_sorted_filter)
  have 5: "complete (advance now p) \<and>
      (index p \<le> length (plan p) \<longrightarrow> index (advance now p) = length (plan p)) \<and>
      advance now p \<notin> set (attack_plans (tick fault now now_iso st))"
    if h: "\<forall>entry \<in> set (drop (index p) (plan p)). due now p entry"
    using advance_all_due[OF h] unfolding 1 by simp
  have 6: "duration q = d \<and> start_time q = start \<and> index q = 0 \<and>
      sorted (map delay (plan q)) \<and>
      (\<forall>entry \<in> set (plan q). delay entry \<le> duration q + 1/2000) \<and>
      (start_time q + duration q + 1/2000 \<le> now \<longrightarrow>
         (\<forall>entry \<in> set (drop (index q) (plan q)). due now q entry))"
    if d: "0 \<le> d" and c: "create_runtime_plan start d'
             (generate_attack_scenario d created_iso src port cid picks) = Some q"
  proof -
    note c' = c[unfolded generate_attack_scenario_def]
    note r = create_runtime_plan_built[OF c']
    note b = built_plan_props[OF d r(1), of d' cid]
    have s: "sorted (map delay (plan q))" unfolding r(2) by (rule b(1))
    have u: "\<forall>entry \<in> set (plan q). delay entry \<le> duration q + 1/2000"
      unfolding r(2) r(3) by (rule b(2))
    have "\<forall>entry \<in> set (drop (index q) (plan q)). due now q entry"
      if "start_time q + duration q + 1/2000 \<le> now"
      using u that by (auto simp: r(5) due_def)
    then show ?thesis using r(3,4,5) s u by blast
  qed
  show ?thesis using 1 2 3 4 5 6 by blast
qed

theorem tick_emits_due_run_and_retires_witness:
  "let scen = (generate_attack_scenario (100003/5000) ''2026-01-01T00:00:00'' ''9.9.9.9'' 80 ''abcd1234''
         [(''recon'', ''HTTP directory probe detected'',
           [(''stage'', ''recon''), (''vector'', ''http''), (''paths'', ''/admin, /login, /.git/'')]),
          (''intrusion'', ''Repeated login failures on web auth endpoint'',
           [(''stage'', ''intrusion''), (''vector'', ''http''), (''endpoint'', ''/login''),
            (''attempts'', ''15'')]),
          (''exploit'', ''Exploit payload upload attempt detected'',
           [(''stage'', ''exploit''), (''vector'', ''http''),
            (''indicator'', ''suspicious binary upload'')])]);
       st = snd (trigger_attack ''10.0.0.1'' 1000 scen 25 initial_state);
       st' = tick no_fault (1000 + 100003/5000 + 1/2000) ''2026-01-01T00:00:21'' st
   in map plan_view (attack_plans st) = [(1000, 100003/5000, [0, 10, 20001/1000], 0)] \<and>
      attack_plans st' = [] \<and>
      map ev_id (events (event_store st')) = [Some 1, Some 2, Some 3] \<and>
      map severity (events (event_store st')) = [''suspicious'', ''malicious'', ''critical'']"
proof -
  define picks :: "(string \<times> string \<times> (string \<times> string) list) list" where "picks =
         [(''recon'', ''HTTP directory probe detected'',
           [(''stage'', ''recon''), (''vector'', ''http''), (''paths'', ''/admin, /login, /.git/'')]),
          (''intrusion'', ''Repeated login failures on web auth endpoint'',
           [(''stage'', ''intrusion''), (''vector'', ''http''), (''endpoint'', ''/login''),
            (''attempts'', ''15'')]),
          (''exploit'', ''Exploit payload upload attempt detected'',
           [(''stage'', ''exploit''), (''vector'', ''http''),
            (''indicator'', ''suspicious binary upload'')])]"
  define scen where "scen = generate_attack_scenario (100003/5000) ''2026-01-01T00:00:00''
         ''9.9.9.9'' 80 ''abcd1234'' picks"
  define evs where "evs = map (\<lambda>(stg, raw_text, parsed_dict).
               build_event_from_template ''2026-01-01T00:00:00'' (severity_for_stage stg) stg
                 ''abcd1234'' raw_text parsed_dict ''9.9.9.9'' 80) picks"
  define q where "q = \<lparr>plan_chain_id = Some ''abcd1234'', duration = 100003/5000,
         plan = plan (normalize_attack_plan 25 scen), start_time = 1000, index = 0\<rparr>"
  define st where "st = snd (trigger_attack ''10.0.0.1'' 1000 scen 25 initial_state)"
  have sc: "scen = build_attack_plan (100003/5000) ''abcd1234'' evs"
    by (simp add: scen_def evs_def generate_attack_scenario_def)
  have len: "length evs = 3" by (simp add: evs_def picks_def)
  then have ne: "evs \<noteq> []" by auto
  have sd: "stage_delays (100003/5000) 3 = [0, 100003/10000, 100003/5000]"
    by (simp add: stage_delays_def Let_def upt_rec)
  have dl: "map delay (plan (normalize_attack_plan 25 scen)) = [0, 10, 20001/1000]"
    unfolding sc built_plan_delays[OF ne] len sd
    by (simp add: py_round_def round_half_even_def Let_def)
  then have pne: "plan (normalize_attack_plan 25 scen) \<noteq> []" by auto
  have cr: "create_runtime_plan 1000 25 scen = Some q"
    using pne by (simp add: create_runtime_plan_def Let_def q_def sc built_plan[OF ne])
  have tr: "trigger_attack ''10.0.0.1'' 1000 scen 25 initial_state =
      (Scheduled (Some ''abcd1234'') 20 1 15,
       \<lparr>attack_plans = [q], LAST_TRIGGER = [''10.0.0.1'' \<mapsto> 1000],
        TRIGGER_HISTORY = [''10.0.0.1'' \<mapsto> [1000]], event_store = empty_store\<rparr>)"
    unfolding trigger_attack_def cr
    by (simp add: initial_state_def Let_def TRIGGER_COOLDOWN_def MAX_TRIGGERS_PER_MIN_def
        MAX_ACTIVE_PLANS_def q_def py_round_def round_half_even_def)
  have ap: "attack_plans st = [q]" and es: "event_store st = empty_store"
    unfolding st_def tr by simp_all
  have lp: "length (plan (normalize_attack_plan 25 scen)) = 3"
    using arg_cong[OF dl, of length] by simp
  have qv: "start_time q = 1000" "duration q = 100003/5000" "index q = 0"
    "map delay (plan q) = [0, 10, 20001/1000]" "length (plan q) = 3"
    using dl lp by (simp_all add: q_def)
  have tw: "length (takeWhile (\<lambda>entry. s + delay entry \<le> t) (plan q)) =
            length (takeWhile (\<lambda>x. s + x \<le> t) (map delay (plan q)))" for s t :: real
    by (simp add: takeWhile_map comp_def)

  define now :: real where "now = 1000 + 100003/5000 + 1/2000"
  define iso where "iso = ''2026-01-01T00:00:21''"
  note T = tick_emits_due_run_and_retires[of no_fault now iso st q "100003/5000" 1000 25
      "''2026-01-01T00:00:00''" "''9.9.9.9''" 80 "''abcd1234''" picks q]
  have h: "(0::real) \<le> 100003/5000 \<and> create_runtime_plan 1000 25
      (generate_attack_scenario (100003/5000) ''2026-01-01T00:00:00'' ''9.9.9.9'' 80
         ''abcd1234'' picks) = Some q"
    using cr by (simp add: scen_def)
  have t: "start_time q + duration q + 1/2000 \<le> now" by (simp add: qv now_def)
  have due_all: "\<forall>entry \<in> set (drop (index q) (plan q)). due now q entry"
    using T h t by blast
  then have c: "complete (advance now q)" using T by blast
  have P: "attack_plans (tick no_fault now iso st) = []"
    using T c by (simp add: ap)
  have dp: "due_prefix now q = plan q"
    unfolding due_prefix_def using due_all by (simp add: qv takeWhile_eq_all_conv)
  have pl: "plan q = map (\<lambda>(dl, ev). \<lparr>delay = py_round 3 dl, event = Some ev\<rparr>)
               (zip (stage_delays (100003/5000) (length evs)) evs)"
    by (simp add: q_def sc built_plan[OF ne])
  have fr: "fired now iso q = map (\<lambda>ev. ev\<lparr>timestamp := iso\<rparr>) evs"
    unfolding fired_def dp pl len sd
    by (simp add: evs_def picks_def List.map_filter_simps)
  have S: "event_store (tick no_fault now iso st) =
      foldl (try_add_event no_fault iso) empty_store (map (\<lambda>ev. ev\<lparr>timestamp := iso\<rparr>) evs)"
    using T by (simp add: ap es fr)
  have E: "map ev_id (events (event_store (tick no_fault now iso st))) = [Some 1, Some 2, Some 3]"
    "map severity (events (event_store (tick no_fault now iso st))) =
       [''suspicious'', ''malicious'', ''critical'']"
    unfolding S
    by (simp_all add: evs_def picks_def build_event_from_template_def severity_for_stage_def
        try_add_event_def no_fault_def add_event_def next_event_id_def ensure_timestamp_def
        deque_append_def MAX_EVENTS_def empty_store_def Let_def)
  have V: "map plan_view (attack_plans st) = [(1000, 100003/5000, [0, 10, 20001/1000], 0)]"
    by (simp add: ap plan_view_def qv)
  show ?thesis
    unfolding Let_def picks_def[symmetric] scen_def[symmetric] st_def[symmetric]
      now_def[symmetric] iso_def[symmetric]
    using V P E by simp
qed

text \<open>
  The claim as stated fails for a plan the generator can build: with a sampled duration
  of 20.0006 and three stages the delays are 0, 10.000 and 20.001 after rounding to three
  decimals. Accepted at time 1000, the plan is still active after a tick at
  \<open>start_time + duration = 1020.0006\<close>, its cursor at 2 of 3: the last entry is due at
  1020.001 only.
\<close>

theorem tick_at_duration_counterexample:
  "fst (trigger_attack ''10.0.0.1'' 1000
      (generate_attack_scenario (100003/5000) ''2026-01-01T00:00:00'' ''9.9.9.9'' 80 ''abcd1234''
         [(''recon'', ''HTTP directory probe detected'',
           [(''stage'', ''recon''), (''vector'', ''http''), (''paths'', ''/admin, /login, /.git/'')]),
          (''intrusion'', ''Repeated login failures on web auth endpoint'',
           [(''stage'', ''intrusion''), (''vector'', ''http''), (''endpoint'', ''/login''),
            (''attempts'', ''15'')]),
          (''exploit'', ''Exploit payload upload attempt detected'',
           [(''stage'', ''exploit''), (''vector'', ''http''),
            (''indicator'', ''suspicious binary upload'')])]) 25 initial_state) = Scheduled (Some ''abcd1234'') 20 1 15 \<and>
   map plan_view (attack_plans (tick no_fault (1000 + 100003/5000) ''2026-01-01T00:00:20''
     (snd (trigger_attack ''10.0.0.1'' 1000
      (generate_attack_scenario (100003/5000) ''2026-01-01T00:00:00'' ''9.9.9.9'' 80 ''abcd1234''
         [(''recon'', ''HTTP directory probe detected'',
           [(''stage'', ''recon''), (''vector'', ''http''), (''paths'', ''/admin, /login, /.git/'')]),
          (''intrusion'', ''Repeated login failures on web auth endpoint'',
           [(''stage'', ''intrusion''), (''vector'', ''http''), (''endpoint'', ''/login''),
            (''attempts'', ''15'')]),
          (''exploit'', ''Exploit payload upload attempt detected'',
           [(''stage'', ''exploit''), (''vector'', ''http''),
            (''indicator'', ''suspicious binary upload'')])]) 25 initial_state)))) = [(1000, 100003/5000, [0, 10, 20001/1000], 2)]"
proof -
  define picks :: "(string \<times> string \<times> (string \<times> string) list) list" where "picks =
         [(''recon'', ''HTTP directory probe detected'',
           [(''stage'', ''recon''), (''vector'', ''http''), (''paths'', ''/admin, /login, /.git/'')]),
          (''intrusion'', ''Repeated login failures on web auth endpoint'',
           [(''stage'', ''intrusion''), (''vector'', ''http''), (''endpoint'', ''/login''),
            (''attempts'', ''15'')]),
          (''exploit'', ''Exploit payload upload attempt detected'',
           [(''stage'', ''exploit''), (''vector'', ''http''),
            (''indicator'', ''suspicious binary upload'')])]"
  define scen where "scen = generate_attack_scenario (100003/5000) ''2026-01-01T00:00:00''
         ''9.9.9.9'' 80 ''abcd1234'' picks"
  define evs where "evs = map (\<lambda>(stg, raw_text, parsed_dict).
               build_event_from_template ''2026-01-01T00:00:00'' (severity_for_stage stg) stg
                 ''abcd1234'' raw_text parsed_dict ''9.9.9.9'' 80) picks"
  define q where "q = \<lparr>plan_chain_id = Some ''abcd1234'', duration = 100003/5000,
         plan = plan (normalize_attack_plan 25 scen), start_time = 1000, index = 0\<rparr>"
  define st where "st = snd (trigger_attack ''10.0.0.1'' 1000 scen 25 initial_state)"
  have sc: "scen = build_attack_plan (100003/5000) ''abcd1234'' evs"
    by (simp add: scen_def evs_def generate_attack_scenario_def)
  have len: "length evs = 3" by (simp add: evs_def picks_def)
  then have ne: "evs \<noteq> []" by auto
  have sd: "stage_delays (100003/5000) 3 = [0, 100003/10000, 100003/5000]"
    by (simp add: stage_delays_def Let_def upt_rec)
  have dl: "map delay (plan (normalize_attack_plan 25 scen)) = [0, 10, 20001/1000]"
    unfolding sc built_plan_delays[OF ne] len sd
    by (simp add: py_round_def round_half_even_def Let_def)
  then have pne: "plan (normalize_attack_plan 25 scen) \<noteq> []" by auto
  have cr: "create_runtime_plan 1000 25 scen = Some q"
    using pne by (simp add: create_runtime_plan_def Let_def q_def sc built_plan[OF ne])
  have tr: "trigger_attack ''10.0.0.1'' 1000 scen 25 initial_state =
      (Scheduled (Some ''abcd1234'') 20 1 15,
       \<lparr>attack_plans = [q], LAST_TRIGGER = [''10.0.0.1'' \<mapsto> 1000],
        TRIGGER_HISTORY = [''10.0.0.1'' \<mapsto> [1000]], event_store = empty_store\<rparr>)"
    unfolding trigger_attack_def cr
    by (simp add: initial_state_def Let_def TRIGGER_COOLDOWN_def MAX_TRIGGERS_PER_MIN_def
        MAX_ACTIVE_PLANS_def q_def py_round_def round_half_even_def)
  have ap: "attack_plans st = [q]" and es: "event_store st = empty_store"
    unfolding st_def tr by simp_all
  have lp: "length (plan (normalize_attack_plan 25 scen)) = 3"
    using arg_cong[OF dl, of length] by simp
  have qv: "start_time q = 1000" "duration q = 100003/5000" "index q = 0"
    "map delay (plan q) = [0, 10, 20001/1000]" "length (plan q) = 3"
    using dl lp by (simp_all add: q_def)
  have tw: "length (takeWhile (\<lambda>entry. s + delay entry \<le> t) (plan q)) =
            length (takeWhile (\<lambda>x. s + x \<le> t) (map delay (plan q)))" for s t :: real
    by (simp add: takeWhile_map comp_def)

  define now :: real where "now = 1000 + 100003/5000"
  have "length (due_prefix now q) =
        length (takeWhile (\<lambda>x. 1000 + x \<le> now) (map delay (plan q)))"
    unfolding due_prefix_def due_def[abs_def] qv(1,3) drop_0 by (rule tw)
  then have dpl: "length (due_prefix now q) = 2"
    unfolding qv(4) now_def by simp
  have adv: "plan_view (advance now q) = (1000, 100003/5000, [0, 10, 20001/1000], 2)"
    "\<not> complete (advance now q)"
    by (simp_all add: plan_view_def advance_def complete_def dpl qv)
  have "map plan_view (attack_plans (tick no_fault now ''2026-01-01T00:00:20'' st)) =
        [(1000, 100003/5000, [0, 10, 20001/1000], 2)]"
    unfolding tick_eq using adv by (simp add: ap)
  then show ?thesis
    unfolding picks_def[symmetric] scen_def[symmetric] now_def[symmetric]
    using tr by (simp add: st_def)
qed

end
